theory Spec2Isabelle
  imports Main
begin

section \<open>JavaScript values and the runtime\<close>

text \<open>
  The streaming client of \<^verbatim>\<open>frontend/src/services/api.ts\<close> works on values produced by
  \<^verbatim>\<open>JSON.parse\<close>. A parsed value is a \<open>json\<close>; a property that is absent reads as
  \<^verbatim>\<open>undefined\<close>, modelled by \<open>None\<close>. Numbers are the integers of the protocol (record
  ids, counts); \<^verbatim>\<open>NaN\<close> is \<open>None\<close> where a conversion can produce it.
\<close>

datatype json =
    JNull
  | JBool bool
  | JNum int
  | JStr string
  | JArr "json list"
  | JObj "(string \<times> json) list"

text \<open>
  What the code takes from the JavaScript runtime and does not define itself:
  \<^verbatim>\<open>JSON.parse\<close> (\<open>None\<close> when it throws), and the conversions \<^verbatim>\<open>String(v)\<close> of a value
  that is not a string and \<^verbatim>\<open>Number(v)\<close> of a value that is not a number.
\<close>

record runtime =
  JSON_parse :: "string \<Rightarrow> json option"
  ToString :: "json \<Rightarrow> string"
  ToNumber :: "json \<Rightarrow> int option"

fun truthy :: "json \<Rightarrow> bool" where
  "truthy JNull = False"
| "truthy (JBool b) = b"
| "truthy (JNum n) = (n \<noteq> 0)"
| "truthy (JStr s) = (s \<noteq> [])"
| "truthy (JArr xs) = True"
| "truthy (JObj kvs) = True"

text \<open>\<^verbatim>\<open>data.key\<close>: only an object has the properties the client reads.\<close>

fun property :: "json \<Rightarrow> string \<Rightarrow> json option" where
  "property (JObj kvs) k = map_of kvs k"
| "property v k = None"

text \<open>\<^verbatim>\<open>v || d\<close> where \<open>v\<close> is a property read.\<close>

definition or_else :: "json option \<Rightarrow> json \<Rightarrow> json" where
  "or_else v d = (case v of None \<Rightarrow> d | Some x \<Rightarrow> if truthy x then x else d)"

definition js_String :: "runtime \<Rightarrow> json \<Rightarrow> string" where
  "js_String rt v = (case v of JStr s \<Rightarrow> s | _ \<Rightarrow> ToString rt v)"

definition js_Number :: "runtime \<Rightarrow> json \<Rightarrow> int option" where
  "js_Number rt v = (case v of JNum n \<Rightarrow> Some n | _ \<Rightarrow> ToNumber rt v)"

text \<open>
  \<^verbatim>\<open>parseSseJson\<close> (api.ts, 44-50): the parsed value, or \<^verbatim>\<open>null\<close> when
  \<^verbatim>\<open>JSON.parse\<close> throws.
\<close>

definition parseSseJson :: "runtime \<Rightarrow> string \<Rightarrow> json" where
  "parseSseJson rt raw = (case JSON_parse rt raw of None \<Rightarrow> JNull | Some v \<Rightarrow> v)"

section \<open>The push-subscription transport\<close>

text \<open>
  What a handler of an \<^verbatim>\<open>EventSource\<close> does for one event, in order: the callbacks
  it invokes and the call of \<^verbatim>\<open>eventSource.close()\<close>.
\<close>

datatype action =
    OnChunk string
  | OnStart int
  | OnProgress json
  | OnDone json
  | OnError string
  | Close

text \<open>
  The \<^verbatim>\<open>onmessage\<close> handler of \<^verbatim>\<open>rewriteWithStream\<close> (api.ts, 236-264) and of
  \<^verbatim>\<open>reviewWithStream\<close> (344-372). The two bodies differ only in the property of
  the \<^verbatim>\<open>start\<close> frame that carries the id, here \<open>id_key\<close>.
\<close>

definition stream_onmessage :: "string \<Rightarrow> runtime \<Rightarrow> string \<Rightarrow> action list" where
  "stream_onmessage id_key rt raw =
     (let data = parseSseJson rt raw in
      if \<not> truthy data then []
      else (case property data ''type'' of
          Some (JStr t) \<Rightarrow>
            if t = ''content'' then
              [OnChunk (js_String rt (or_else (property data ''delta'') (JStr [])))]
            else if t = ''start'' then
              (case js_Number rt (or_else (property data id_key) (JNum 0)) of
                 None \<Rightarrow> []
               | Some taskId \<Rightarrow> if taskId > 0 then [OnStart taskId] else [])
            else if t = ''done'' then [OnDone data, Close]
            else if t = ''error'' then
              [OnError (js_String rt (or_else (property data ''message'') (JStr ''Unknown error''))),
               Close]
            else []
        | _ \<Rightarrow> []))"

definition rewriteWithStream_onmessage :: "runtime \<Rightarrow> string \<Rightarrow> action list" where
  "rewriteWithStream_onmessage = stream_onmessage ''task_id''"

definition reviewWithStream_onmessage :: "runtime \<Rightarrow> string \<Rightarrow> action list" where
  "reviewWithStream_onmessage = stream_onmessage ''review_id''"

text \<open>The \<^verbatim>\<open>onmessage\<close> handler of \<^verbatim>\<open>coverWithStream\<close> (api.ts, 512-531).\<close>

definition coverWithStream_onmessage :: "runtime \<Rightarrow> string \<Rightarrow> action list" where
  "coverWithStream_onmessage rt raw =
     (let parsed = parseSseJson rt raw in
      if \<not> truthy parsed then []
      else if property parsed ''type'' = Some (JStr ''error'') then
        [OnError (js_String rt
           (or_else (property parsed ''message'')
              (or_else (property parsed ''error'') (JStr ''Unknown error'')))),
         Close]
      else OnProgress parsed #
        (if property parsed ''type'' = Some (JStr ''done'') then [OnDone parsed, Close] else []))"

text \<open>The \<^verbatim>\<open>onerror\<close> handler, the same in the three functions (266-269, 374-377, 533-536).\<close>

definition stream_onerror :: "action list" where
  "stream_onerror = [OnError ''Connection error'', Close]"

section \<open>Promise-style sessions: startRewrite, startReview, startCover\<close>

text \<open>
  The value a promise is rejected with: \<^verbatim>\<open>new Error(message)\<close>, or whatever the record
  fetch (\<^verbatim>\<open>getRewrite\<close>, \<^verbatim>\<open>getReview\<close>, \<^verbatim>\<open>getCover\<close>) threw.
\<close>

datatype 'e reason = Error string | Failure 'e

datatype ('e, 'r) promise = Pending | Resolved 'r | Rejected "'e reason"

text \<open>
  \<^verbatim>\<open>resolve\<close> and \<^verbatim>\<open>reject\<close> of a \<^verbatim>\<open>new Promise\<close>: the first call settles the promise,
  a later call changes nothing.
\<close>

definition resolve :: "'r \<Rightarrow> ('e, 'r) promise \<Rightarrow> ('e, 'r) promise" where
  "resolve v p = (case p of Pending \<Rightarrow> Resolved v | _ \<Rightarrow> p)"

definition reject :: "'e reason \<Rightarrow> ('e, 'r) promise \<Rightarrow> ('e, 'r) promise" where
  "reject e p = (case p of Pending \<Rightarrow> Rejected e | _ \<Rightarrow> p)"

text \<open>
  The state one call of a starter owns: the \<^verbatim>\<open>EventSource\<close> (whether it is closed), the
  closure variables \<^verbatim>\<open>taskId\<close> (\<^verbatim>\<open>reviewId\<close> in \<^verbatim>\<open>startReview\<close>; \<^verbatim>\<open>startCover\<close> has
  none) and \<^verbatim>\<open>settled\<close>, the returned promise, and the ids of the record fetches that
  were issued and have not returned yet.
\<close>

record ('e, 'r) session =
  es_closed :: bool
  taskId :: "int option"
  settled :: bool
  completion :: "('e, 'r) promise"
  fetches :: "int list"

definition init_session :: "('e, 'r) session" where
  "init_session =
     \<lparr>es_closed = False, taskId = None, settled = False, completion = Pending, fetches = []\<rparr>"

datatype starter = StartRewrite | StartReview | StartCover

text \<open>
  The messages of the missing-id rejections, as the UTF-8 bytes of the source text
  (api.ts, 298, 406 and 564); each ends in \<^verbatim>\<open>ID\<close>.
\<close>

definition missing_id_message :: "starter \<Rightarrow> string" where
  "missing_id_message st = (case st of
      StartRewrite \<Rightarrow>
        [CHR 0xE6, CHR 0x9C, CHR 0xAA, CHR 0xE8, CHR 0x8E, CHR 0xB7, CHR 0xE5, CHR 0x8F,
         CHR 0x96, CHR 0xE5, CHR 0x88, CHR 0xB0, CHR 0xE6, CHR 0x94, CHR 0xB9, CHR 0xE5,
         CHR 0x86, CHR 0x99, CHR 0xE4, CHR 0xBB, CHR 0xBB, CHR 0xE5, CHR 0x8A, CHR 0xA1,
         CHR 0x49, CHR 0x44]
    | StartReview \<Rightarrow>
        [CHR 0xE6, CHR 0x9C, CHR 0xAA, CHR 0xE8, CHR 0x8E, CHR 0xB7, CHR 0xE5, CHR 0x8F,
         CHR 0x96, CHR 0xE5, CHR 0x88, CHR 0xB0, CHR 0xE5, CHR 0xAE, CHR 0xA1, CHR 0xE6,
         CHR 0xA0, CHR 0xB8, CHR 0x49, CHR 0x44]
    | StartCover \<Rightarrow>
        [CHR 0xE6, CHR 0x9C, CHR 0xAA, CHR 0xE8, CHR 0x8E, CHR 0xB7, CHR 0xE5, CHR 0x8F,
         CHR 0x96, CHR 0xE5, CHR 0x88, CHR 0xB0, CHR 0xE5, CHR 0xB0, CHR 0x81, CHR 0xE9,
         CHR 0x9D, CHR 0xA2, CHR 0x49, CHR 0x44])"

text \<open>The \<^verbatim>\<open>onError\<close> callback of the three starters (286-291, 394-399, 551-556).\<close>

definition starter_onError :: "string \<Rightarrow> ('e, 'r) session \<Rightarrow> ('e, 'r) session" where
  "starter_onError error s =
     (if \<not> settled s then s\<lparr>settled := True, completion := reject (Error error) (completion s)\<rparr>
      else s)"

text \<open>
  The \<^verbatim>\<open>onDone\<close> callback of \<^verbatim>\<open>startRewrite\<close> (292-309) and \<^verbatim>\<open>startReview\<close> (400-417)
  up to its \<^verbatim>\<open>await\<close>: the fetch is issued and the callback suspends.
\<close>

definition text_onDone :: "starter \<Rightarrow> ('e, 'r) session \<Rightarrow> ('e, 'r) session" where
  "text_onDone st s =
     (if settled s then s
      else (case taskId s of
          None \<Rightarrow>
            s\<lparr>settled := True,
              completion := reject (Error (missing_id_message st)) (completion s)\<rparr>
        | Some i \<Rightarrow>
            if i = 0 then
              s\<lparr>settled := True,
                completion := reject (Error (missing_id_message st)) (completion s)\<rparr>
            else s\<lparr>fetches := fetches s @ [i]\<rparr>))"

text \<open>The \<^verbatim>\<open>onDone\<close> callback of \<^verbatim>\<open>startCover\<close> (557-575) up to its \<^verbatim>\<open>await\<close>.\<close>

definition startCover_onDone :: "runtime \<Rightarrow> json \<Rightarrow> ('e, 'r) session \<Rightarrow> ('e, 'r) session" where
  "startCover_onDone rt data s =
     (if settled s then s
      else (case js_Number rt (or_else (property data ''id'') (JNum 0)) of
          None \<Rightarrow>
            s\<lparr>settled := True,
              completion := reject (Error (missing_id_message StartCover)) (completion s)\<rparr>
        | Some coverId \<Rightarrow>
            if coverId = 0 then
              s\<lparr>settled := True,
                completion := reject (Error (missing_id_message StartCover)) (completion s)\<rparr>
            else s\<lparr>fetches := fetches s @ [coverId]\<rparr>))"

text \<open>
  The rest of \<^verbatim>\<open>onDone\<close>, run when the fetch of record \<open>i\<close> returns (303-304, 306-307):
  \<open>Inr\<close> the record, \<open>Inl\<close> what the fetch threw.
\<close>

definition fetch_returns :: "int \<Rightarrow> 'e + 'r \<Rightarrow> ('e, 'r) session \<Rightarrow> ('e, 'r) session" where
  "fetch_returns i res s =
     (if i \<notin> set (fetches s) then s
      else (case res of
          Inr fetched \<Rightarrow>
            s\<lparr>fetches := remove1 i (fetches s), settled := True,
              completion := resolve fetched (completion s)\<rparr>
        | Inl e \<Rightarrow>
            s\<lparr>fetches := remove1 i (fetches s), settled := True,
              completion := reject (Failure e) (completion s)\<rparr>))"

text \<open>The callbacks each starter passes to its stream function, and \<^verbatim>\<open>close()\<close>.\<close>

fun apply_action :: "starter \<Rightarrow> runtime \<Rightarrow> ('e, 'r) session \<Rightarrow> action \<Rightarrow> ('e, 'r) session" where
  "apply_action st rt s (OnChunk delta) = s"
| "apply_action st rt s (OnProgress d) = s"
| "apply_action st rt s (OnStart i) = (if st = StartCover then s else s\<lparr>taskId := Some i\<rparr>)"
| "apply_action st rt s (OnDone d) =
     (if st = StartCover then startCover_onDone rt d s else text_onDone st s)"
| "apply_action st rt s (OnError error) = starter_onError error s"
| "apply_action st rt s Close = s\<lparr>es_closed := True\<rparr>"

definition onmessage_of :: "starter \<Rightarrow> runtime \<Rightarrow> string \<Rightarrow> action list" where
  "onmessage_of st = (case st of
      StartRewrite \<Rightarrow> rewriteWithStream_onmessage
    | StartReview \<Rightarrow> reviewWithStream_onmessage
    | StartCover \<Rightarrow> coverWithStream_onmessage)"

text \<open>
  What can happen to a session: the server sends a message, the connection fails, someone
  calls \<^verbatim>\<open>close()\<close> on the \<^verbatim>\<open>EventSource\<close>, a record fetch returns.
\<close>

datatype ('e, 'r) event =
    Message string
  | ConnectionError
  | CloseCall
  | FetchReturns int "'e + 'r"

text \<open>
  The browser's \<^verbatim>\<open>EventSource\<close>: a closed source dispatches no event to its handlers.
\<close>

definition dispatched :: "(runtime \<Rightarrow> string \<Rightarrow> action list) \<Rightarrow> runtime \<Rightarrow> bool \<Rightarrow> ('e, 'r) event \<Rightarrow> action list" where
  "dispatched onmessage rt closed ev =
     (if closed then []
      else (case ev of
          Message raw \<Rightarrow> onmessage rt raw
        | ConnectionError \<Rightarrow> stream_onerror
        | _ \<Rightarrow> []))"

definition step :: "starter \<Rightarrow> runtime \<Rightarrow> ('e, 'r) session \<Rightarrow> ('e, 'r) event \<Rightarrow> ('e, 'r) session" where
  "step st rt s ev = (case ev of
      CloseCall \<Rightarrow> s\<lparr>es_closed := True\<rparr>
    | FetchReturns i res \<Rightarrow> fetch_returns i res s
    | _ \<Rightarrow> foldl (apply_action st rt) s (dispatched (onmessage_of st) rt (es_closed s) ev))"

definition run :: "starter \<Rightarrow> runtime \<Rightarrow> ('e, 'r) session \<Rightarrow> ('e, 'r) event list \<Rightarrow> ('e, 'r) session" where
  "run st rt s evs = foldl (step st rt) s evs"

section \<open>The rewrite page: HomePage\<close>

text \<open>
  The part of the component state of \<^verbatim>\<open>HomePage.tsx\<close> the stream touches. Every
  \<^verbatim>\<open>EventSource\<close> the page created is an entry of \<open>sources\<close> (\<open>True\<close>: closed);
  \<^verbatim>\<open>eventSourceRef.current\<close> is an index into it, or \<open>None\<close> for \<^verbatim>\<open>null\<close>.
\<close>

record page =
  sources :: "bool list"
  eventSourceRef :: "nat option"
  isLoading :: bool
  rewrittenContent :: string
  resultWordCount :: int

definition init_page :: page where
  "init_page =
     \<lparr>sources = [], eventSourceRef = None, isLoading = False, rewrittenContent = [],
      resultWordCount = 0\<rparr>"

text \<open>
  The callbacks \<^verbatim>\<open>handleRewrite\<close> passes to \<^verbatim>\<open>rewriteWithStream\<close> (109-137); it passes
  no \<^verbatim>\<open>onStart\<close>. \<open>countWords\<close> (35-38) counts the characters left after two regular
  expression replacements and is a parameter here. Reloading the history and scrolling
  are left out.
\<close>

definition page_onChunk :: "(string \<Rightarrow> int) \<Rightarrow> string \<Rightarrow> page \<Rightarrow> page" where
  "page_onChunk countWords chunk p =
     (let next = rewrittenContent p @ chunk
      in p\<lparr>rewrittenContent := next, resultWordCount := countWords next\<rparr>)"

definition page_onError :: "string \<Rightarrow> page \<Rightarrow> page" where
  "page_onError error p = p\<lparr>isLoading := False\<rparr>"

definition page_onDone :: "runtime \<Rightarrow> (string \<Rightarrow> int) \<Rightarrow> json \<Rightarrow> page \<Rightarrow> page" where
  "page_onDone rt countWords data p =
     (let finalContent = js_String rt (or_else (property data ''final_content'') (JStr []));
          p' = (if finalContent \<noteq> [] then
                  p\<lparr>rewrittenContent := finalContent,
                    resultWordCount :=
                      (case js_Number rt (or_else (property data ''actual_words'') (JNum 0)) of
                         None \<Rightarrow> countWords finalContent
                       | Some n \<Rightarrow> if n \<noteq> 0 then n else countWords finalContent)\<rparr>
                else p)
      in p'\<lparr>isLoading := False\<rparr>)"

fun page_action :: "runtime \<Rightarrow> (string \<Rightarrow> int) \<Rightarrow> nat \<Rightarrow> page \<Rightarrow> action \<Rightarrow> page" where
  "page_action rt cw i p (OnChunk chunk) = page_onChunk cw chunk p"
| "page_action rt cw i p (OnStart n) = p"
| "page_action rt cw i p (OnProgress d) = p"
| "page_action rt cw i p (OnDone d) = page_onDone rt cw d p"
| "page_action rt cw i p (OnError error) = page_onError error p"
| "page_action rt cw i p Close = p\<lparr>sources := (sources p)[i := True]\<rparr>"

text \<open>\<^verbatim>\<open>handleRewrite\<close>, lines 92-95: an existing connection is closed first.\<close>

definition close_current :: "page \<Rightarrow> page" where
  "close_current p = (case eventSourceRef p of
      None \<Rightarrow> p
    | Some i \<Rightarrow> p\<lparr>sources := (sources p)[i := True]\<rparr>)"

text \<open>
  \<^verbatim>\<open>handleRewrite\<close>, lines 97-138: the displayed result is reset and
  \<^verbatim>\<open>rewriteWithStream\<close> creates a new \<^verbatim>\<open>EventSource\<close>, kept in the ref.
\<close>

definition open_stream :: "page \<Rightarrow> page" where
  "open_stream p =
     p\<lparr>isLoading := True, rewrittenContent := [], resultWordCount := 0,
       sources := sources p @ [False], eventSourceRef := Some (length (sources p))\<rparr>"

text \<open>
  \<^verbatim>\<open>handleRewrite\<close> (89-143) with the page's \<^verbatim>\<open>sourceContent\<close> and
  \<^verbatim>\<open>selectedStyleId\<close> (\<open>None\<close>: \<^verbatim>\<open>undefined\<close>).
\<close>

definition handleRewrite :: "string \<Rightarrow> int option \<Rightarrow> page \<Rightarrow> page" where
  "handleRewrite sourceContent selectedStyleId p =
     (if sourceContent = [] \<or> selectedStyleId = None \<or> selectedStyleId = Some 0 then p
      else open_stream (close_current p))"

text \<open>The cancel button (235-241).\<close>

definition cancel :: "page \<Rightarrow> page" where
  "cancel p =
     (case eventSourceRef p of
        None \<Rightarrow> p
      | Some i \<Rightarrow> p\<lparr>sources := (sources p)[i := True], eventSourceRef := None\<rparr>)
     \<lparr>isLoading := False\<rparr>"

text \<open>The cleanup when the component unmounts (46-52).\<close>

definition unmount :: "page \<Rightarrow> page" where
  "unmount p = close_current p"

datatype page_event =
    HandleRewrite string "int option"
  | Cancel
  | Unmount
  | SourceMessage nat string
  | SourceError nat

text \<open>
  An event of source \<open>i\<close> reaches the page's callbacks only while that source exists and
  is open.
\<close>

definition page_step :: "runtime \<Rightarrow> (string \<Rightarrow> int) \<Rightarrow> page \<Rightarrow> page_event \<Rightarrow> page" where
  "page_step rt cw p ev = (case ev of
      HandleRewrite sourceContent selectedStyleId \<Rightarrow> handleRewrite sourceContent selectedStyleId p
    | Cancel \<Rightarrow> cancel p
    | Unmount \<Rightarrow> unmount p
    | SourceMessage i raw \<Rightarrow>
        if i < length (sources p) \<and> \<not> sources p ! i
        then foldl (page_action rt cw i) p (rewriteWithStream_onmessage rt raw) else p
    | SourceError i \<Rightarrow>
        if i < length (sources p) \<and> \<not> sources p ! i
        then foldl (page_action rt cw i) p stream_onerror else p)"

definition page_run :: "runtime \<Rightarrow> (string \<Rightarrow> int) \<Rightarrow> page \<Rightarrow> page_event list \<Rightarrow> page" where
  "page_run rt cw p evs = foldl (page_step rt cw) p evs"

text \<open>The sources of a page that are open.\<close>

definition open_sources :: "page \<Rightarrow> nat list" where
  "open_sources p = filter (\<lambda>i. \<not> sources p ! i) [0 ..< length (sources p)]"

section \<open>The chunked-response transport\<close>

definition NL :: char where
  "NL = CHR 0x0A"

text \<open>
  \<^verbatim>\<open>s.split(sep)\<close> for a separator that is not empty: the pieces of \<open>s\<close> between the
  occurrences of \<open>sep\<close>, found from left to right.
\<close>

fun js_split :: "string \<Rightarrow> string \<Rightarrow> string list" where
  "js_split sep [] = [[]]"
| "js_split sep (c # cs) =
     (if sep \<noteq> [] \<and> take (length sep) (c # cs) = sep
      then [] # js_split sep (drop (length sep) (c # cs))
      else (case js_split sep cs of
          [] \<Rightarrow> [[c]]
        | piece # pieces \<Rightarrow> (c # piece) # pieces))"

text \<open>
  Lines 106-108 and 627-630: \<^verbatim>\<open>buffer += text; chunks = buffer.split("\n\n");
  buffer = chunks.pop() || ""\<close>. The result is the complete chunks and the new buffer.
\<close>

definition read_chunks :: "string \<Rightarrow> string \<Rightarrow> string list \<times> string" where
  "read_chunks buffer text =
     (let chunks = js_split [NL, NL] (buffer @ text)
      in (butlast chunks, if chunks = [] then [] else last chunks))"

text \<open>
  Lines 111-121 and 633-642: the first line of the chunk that starts with
  \<^verbatim>\<open>data: \<close>, parsed; \<open>None\<close> where the loop goes on to the next chunk.
\<close>

definition parsed_chunk :: "runtime \<Rightarrow> string \<Rightarrow> json option" where
  "parsed_chunk rt chunk =
     (case find (\<lambda>line. take 6 line = ''data: '') (js_split [NL] chunk) of
        None \<Rightarrow> None
      | Some dataLine \<Rightarrow>
          (let parsed = parseSseJson rt (drop 6 dataLine)
           in if truthy parsed then Some parsed else None))"

text \<open>
  The read loop of \<^verbatim>\<open>runFullWorkflow\<close> (622-646) over the texts the decoder gives for
  the reads, until the reader signals the end: the state is the buffer and the events
  pushed so far.
\<close>

fun runFullWorkflow_loop :: "runtime \<Rightarrow> string \<times> json list \<Rightarrow> string list \<Rightarrow> string \<times> json list" where
  "runFullWorkflow_loop rt (buffer, events) [] = (buffer, events)"
| "runFullWorkflow_loop rt (buffer, events) (text # texts) =
     (case read_chunks buffer text of
        (chunks, buffer') \<Rightarrow>
          runFullWorkflow_loop rt (buffer', events @ List.map_filter (parsed_chunk rt) chunks) texts)"

definition runFullWorkflow_events :: "runtime \<Rightarrow> string list \<Rightarrow> json list" where
  "runFullWorkflow_events rt texts = snd (runFullWorkflow_loop rt ([], []) texts)"

subsection \<open>extractStyleWithStream\<close>

record WritingStyle =
  style_id :: "int option"
  style_name :: string
  style_description :: string
  style_tags :: "string option"
  style_created_at :: string

datatype style_call = StyleOnStart json | StyleOnProgress json | StyleOnChunk string

record extract_state =
  buffer :: string
  createdStyle :: "WritingStyle option"
  calls :: "style_call list"

text \<open>The messages of lines 137 and 152, as the UTF-8 bytes of the source text.\<close>

definition extract_failed_message :: string where
  "extract_failed_message =
     [CHR 0xE9, CHR 0xA3, CHR 0x8E, CHR 0xE6, CHR 0xA0, CHR 0xBC, CHR 0xE6, CHR 0x8F, CHR 0x90,
      CHR 0xE5, CHR 0x8F, CHR 0x96, CHR 0xE5, CHR 0xA4, CHR 0xB1, CHR 0xE8, CHR 0xB4, CHR 0xA5]"

definition extract_no_result_message :: string where
  "extract_no_result_message =
     [CHR 0xE9, CHR 0xA3, CHR 0x8E, CHR 0xE6, CHR 0xA0, CHR 0xBC, CHR 0xE6, CHR 0x8F, CHR 0x90,
      CHR 0xE5, CHR 0x8F, CHR 0x96, CHR 0xE6, CHR 0x9C, CHR 0xAA, CHR 0xE8, CHR 0xBF, CHR 0x94,
      CHR 0xE5, CHR 0x9B, CHR 0x9E, CHR 0xE5, CHR 0xAE, CHR 0x8C, CHR 0xE6, CHR 0x88, CHR 0x90,
      CHR 0xE7, CHR 0xBB, CHR 0x93, CHR 0xE6, CHR 0x9E, CHR 0x9C]"

text \<open>
  Lines 123-147 for one parsed frame. \<open>Inl\<close> is the \<^verbatim>\<open>throw\<close> of line 137, with the
  callbacks invoked before it. \<open>request_name\<close> is \<^verbatim>\<open>request.style_name\<close> and \<open>now\<close> what
  \<^verbatim>\<open>new Date().toISOString()\<close> returns.
\<close>

definition extract_frame :: "runtime \<Rightarrow> string \<Rightarrow> string \<Rightarrow> json \<Rightarrow> extract_state \<Rightarrow> (string \<times> style_call list) + extract_state" where
  "extract_frame rt request_name now parsed xs =
     (let eventType = js_String rt (or_else (property parsed ''type'') (JStr [])) in
      if eventType = ''start'' then Inr (xs\<lparr>calls := calls xs @ [StyleOnStart parsed]\<rparr>)
      else if eventType = ''progress'' then
        Inr (xs\<lparr>calls := calls xs @ [StyleOnProgress parsed]\<rparr>)
      else if eventType = ''content'' then
        Inr (xs\<lparr>calls := calls xs @
          [StyleOnChunk (js_String rt (or_else (property parsed ''delta'') (JStr [])))]\<rparr>)
      else if eventType = ''error'' then
        Inl (js_String rt (or_else (property parsed ''message'') (JStr extract_failed_message)),
             calls xs)
      else if eventType = ''done'' then
        Inr (xs\<lparr>createdStyle := Some
          \<lparr>style_id = js_Number rt (or_else (property parsed ''id'') (JNum 0)),
           style_name = js_String rt (or_else (property parsed ''name'') (JStr request_name)),
           style_description =
             js_String rt (or_else (property parsed ''style_description'') (JStr [])),
           style_tags = (case property parsed ''tags'' of
               None \<Rightarrow> None
             | Some tags \<Rightarrow> if truthy tags then Some (js_String rt tags) else None),
           style_created_at =
             js_String rt (or_else (property parsed ''created_at'') (JStr now))\<rparr>\<rparr>)
      else Inr xs)"

text \<open>The \<^verbatim>\<open>for\<close> loop over the chunks of one read (110-148).\<close>

fun extract_chunks :: "runtime \<Rightarrow> string \<Rightarrow> string \<Rightarrow> extract_state \<Rightarrow> string list \<Rightarrow> (string \<times> style_call list) + extract_state" where
  "extract_chunks rt request_name now xs [] = Inr xs"
| "extract_chunks rt request_name now xs (chunk # chunks) =
     (case parsed_chunk rt chunk of
        None \<Rightarrow> extract_chunks rt request_name now xs chunks
      | Some parsed \<Rightarrow>
          (case extract_frame rt request_name now parsed xs of
             Inl thrown \<Rightarrow> Inl thrown
           | Inr xs' \<Rightarrow> extract_chunks rt request_name now xs' chunks))"

text \<open>The \<^verbatim>\<open>while\<close> loop over the reads (100-149), until the reader signals the end.\<close>

fun extract_loop :: "runtime \<Rightarrow> string \<Rightarrow> string \<Rightarrow> extract_state \<Rightarrow> string list \<Rightarrow> (string \<times> style_call list) + extract_state" where
  "extract_loop rt request_name now xs [] = Inr xs"
| "extract_loop rt request_name now xs (text # texts) =
     (case read_chunks (buffer xs) text of
        (chunks, buffer') \<Rightarrow>
          (case extract_chunks rt request_name now (xs\<lparr>buffer := buffer'\<rparr>) chunks of
             Inl thrown \<Rightarrow> Inl thrown
           | Inr xs' \<Rightarrow> extract_loop rt request_name now xs' texts))"

datatype outcome = Returned WritingStyle | Threw string

text \<open>
  \<^verbatim>\<open>extractStyleWithStream\<close> (95-155) for a response that is ok and has a body, whose
  reader returns \<open>texts\<close> and then the end: the callbacks invoked, in order, and how the
  returned promise settles.
\<close>

definition extractStyleWithStream :: "runtime \<Rightarrow> string \<Rightarrow> string \<Rightarrow> string list \<Rightarrow> style_call list \<times> outcome" where
  "extractStyleWithStream rt request_name now texts =
     (case extract_loop rt request_name now \<lparr>buffer = [], createdStyle = None, calls = []\<rparr> texts of
        Inl (message, invoked) \<Rightarrow> (invoked, Threw message)
      | Inr xs \<Rightarrow>
          (calls xs,
           case createdStyle xs of
             None \<Rightarrow> Threw extract_no_result_message
           | Some created \<Rightarrow> Returned created))"

text \<open>
  What the loop does with the frames it decodes, said for a list of frames: lines 123-147
  for each frame in order, up to the first \<^verbatim>\<open>throw\<close>.
\<close>

fun extract_frames :: "runtime \<Rightarrow> string \<Rightarrow> string \<Rightarrow> extract_state \<Rightarrow> json list \<Rightarrow> (string \<times> style_call list) + extract_state" where
  "extract_frames rt request_name now xs [] = Inr xs"
| "extract_frames rt request_name now xs (parsed # frames) =
     (case extract_frame rt request_name now parsed xs of
        Inl thrown \<Rightarrow> Inl thrown
      | Inr xs' \<Rightarrow> extract_frames rt request_name now xs' frames)"

text \<open>
  How the call ends once the loop is left (lines 137 and 151-155): the callbacks invoked,
  and the thrown message or the created style.
\<close>

definition extract_outcome :: "(string \<times> style_call list) + extract_state \<Rightarrow> style_call list \<times> outcome" where
  "extract_outcome res = (case res of
      Inl (message, invoked) \<Rightarrow> (invoked, Threw message)
    | Inr xs \<Rightarrow>
        (calls xs,
         case createdStyle xs of
           None \<Rightarrow> Threw extract_no_result_message
         | Some created \<Rightarrow> Returned created))"

section \<open>Callbacks invoked in any order\<close>

text \<open>
  The callbacks a starter passes can be invoked in any order by whoever holds them, and a
  record fetch can return between two invocations.
\<close>

datatype ('e, 'r) invocation = Invoke action | Returns int "'e + 'r"

definition invoke :: "starter \<Rightarrow> runtime \<Rightarrow> ('e, 'r) session \<Rightarrow> ('e, 'r) invocation \<Rightarrow> ('e, 'r) session" where
  "invoke st rt s iv = (case iv of
      Invoke a \<Rightarrow> apply_action st rt s a
    | Returns i res \<Rightarrow> fetch_returns i res s)"

definition invoke_all :: "starter \<Rightarrow> runtime \<Rightarrow> ('e, 'r) session \<Rightarrow> ('e, 'r) invocation list \<Rightarrow> ('e, 'r) session" where
  "invoke_all st rt s invs = foldl (invoke st rt) s invs"

section \<open>Invariants\<close>

text \<open>
  Between two events of a session: a settled promise has the flag \<^verbatim>\<open>settled\<close> set, and
  while the connection is open nothing is settled and no fetch is under way.
\<close>

definition sound :: "('e, 'r) session \<Rightarrow> bool" where
  "sound s \<longleftrightarrow> (completion s \<noteq> Pending \<longrightarrow> settled s) \<and>
     (\<not> es_closed s \<longrightarrow> \<not> settled s \<and> fetches s = [])"

text \<open>
  Of a page: the ref points to a source that exists, and every source the ref does not
  point to is closed.
\<close>

definition single_flight :: "page \<Rightarrow> bool" where
  "single_flight p \<longleftrightarrow>
     (\<forall>i. eventSourceRef p = Some i \<longrightarrow> i < length (sources p)) \<and>
     (\<forall>i < length (sources p). eventSourceRef p \<noteq> Some i \<longrightarrow> sources p ! i)"

definition is_source_event :: "page_event \<Rightarrow> bool" where
  "is_source_event ev = (case ev of SourceMessage i raw \<Rightarrow> True | SourceError i \<Rightarrow> True | _ \<Rightarrow> False)"

section \<open>A runtime for concrete inputs\<close>

text \<open>Wire texts of events, and a runtime that parses them.\<close>

definition wire_start42 :: string where
  \<open>wire_start42 = ''{"type":"start","task_id":42}''\<close>

definition wire_hello :: string where
  \<open>wire_hello = ''{"type":"content","delta":"Hello"}''\<close>

definition wire_world :: string where
  \<open>wire_world = ''{"type":"content","delta":", World!"}''\<close>

definition wire_done :: string where
  \<open>wire_done = ''{"type":"done","final_content":"Hello, World!","actual_words":2}''\<close>

definition wire_start_noid :: string where
  \<open>wire_start_noid = ''{"type":"start"}''\<close>

definition wire_x :: string where
  \<open>wire_x = ''{"type":"content","delta":"x"}''\<close>

definition wire_done_noid :: string where
  \<open>wire_done_noid = ''{"type":"done"}''\<close>

definition wire_error :: string where
  \<open>wire_error = ''{"type":"error","message":"boom"}''\<close>

definition wire_mystery :: string where
  \<open>wire_mystery = ''{"type":"mystery"}''\<close>

definition wire_malformed :: string where
  \<open>wire_malformed = ''{"type":''\<close>

definition demo_parse :: "string \<Rightarrow> json option" where
  "demo_parse raw =
     (if raw = wire_start42 then Some (JObj [(''type'', JStr ''start''), (''task_id'', JNum 42)])
      else if raw = wire_hello then
        Some (JObj [(''type'', JStr ''content''), (''delta'', JStr ''Hello'')])
      else if raw = wire_world then
        Some (JObj [(''type'', JStr ''content''), (''delta'', JStr '', World!'')])
      else if raw = wire_done then
        Some (JObj [(''type'', JStr ''done''), (''final_content'', JStr ''Hello, World!''),
                    (''actual_words'', JNum 2)])
      else if raw = wire_start_noid then Some (JObj [(''type'', JStr ''start'')])
      else if raw = wire_x then Some (JObj [(''type'', JStr ''content''), (''delta'', JStr ''x'')])
      else if raw = wire_done_noid then Some (JObj [(''type'', JStr ''done'')])
      else if raw = wire_error then
        Some (JObj [(''type'', JStr ''error''), (''message'', JStr ''boom'')])
      else if raw = wire_mystery then Some (JObj [(''type'', JStr ''mystery'')])
      else None)"

definition demo_runtime :: runtime where
  "demo_runtime =
     \<lparr>JSON_parse = demo_parse,
      ToString = (\<lambda>v. case v of JNull \<Rightarrow> ''null'' | JBool b \<Rightarrow> (if b then ''true'' else ''false'')
                        | _ \<Rightarrow> ''[object Object]''),
      ToNumber = (\<lambda>v. case v of JNull \<Rightarrow> Some 0 | JBool b \<Rightarrow> Some (if b then 1 else 0)
                        | _ \<Rightarrow> None)\<rparr>"

text \<open>One event on the wire: a \<^verbatim>\<open>data: \<close> line and a blank line.\<close>

definition sse_block :: "string \<Rightarrow> string" where
  "sse_block body = ''data: '' @ body @ [NL, NL]"

section \<open>Properties of the handlers\<close>

subsection \<open>What a handler can do, and the invariant of a session\<close>

lemma stream_onmessage_cases:
  "stream_onmessage k rt raw = [] \<or>
   (\<exists>c. stream_onmessage k rt raw = [OnChunk c]) \<or>
   (\<exists>n. stream_onmessage k rt raw = [OnStart n]) \<or>
   (\<exists>d. stream_onmessage k rt raw = [OnDone d, Close]) \<or>
   (\<exists>e. stream_onmessage k rt raw = [OnError e, Close])"
  by (simp add: stream_onmessage_def Let_def split: option.split json.split)

lemma cover_onmessage_cases:
  "coverWithStream_onmessage rt raw = [] \<or>
   (\<exists>d. coverWithStream_onmessage rt raw = [OnProgress d]) \<or>
   (\<exists>d. coverWithStream_onmessage rt raw = [OnProgress d, OnDone d, Close]) \<or>
   (\<exists>e. coverWithStream_onmessage rt raw = [OnError e, Close])"
  by (simp add: coverWithStream_onmessage_def Let_def)

lemma onmessage_of_cases:
  "onmessage_of st rt raw = [] \<or>
   (\<exists>c. onmessage_of st rt raw = [OnChunk c]) \<or>
   (\<exists>n. st \<noteq> StartCover \<and> onmessage_of st rt raw = [OnStart n]) \<or>
   (\<exists>d. onmessage_of st rt raw = [OnProgress d]) \<or>
   (\<exists>d. onmessage_of st rt raw = [OnDone d, Close]) \<or>
   (\<exists>d. onmessage_of st rt raw = [OnProgress d, OnDone d, Close]) \<or>
   (\<exists>e. onmessage_of st rt raw = [OnError e, Close])"
  using stream_onmessage_cases[of "''task_id''" rt raw] stream_onmessage_cases[of "''review_id''" rt raw]
    cover_onmessage_cases[of rt raw]
  by (cases st) (auto simp: onmessage_of_def rewriteWithStream_onmessage_def reviewWithStream_onmessage_def)

lemma sound_init: "sound init_session"
  by (simp add: sound_def init_session_def)

lemma sound_onError_close:
  "sound s \<Longrightarrow> sound (starter_onError e s\<lparr>es_closed := True\<rparr>)"
  by (auto simp: sound_def starter_onError_def reject_def split: promise.splits)

lemma sound_onDone_close:
  "sound s \<Longrightarrow> sound (apply_action st rt s (OnDone d)\<lparr>es_closed := True\<rparr>)"
  by (auto simp: sound_def startCover_onDone_def text_onDone_def reject_def split: promise.splits option.splits)

lemma sound_fetch: "sound s \<Longrightarrow> sound (fetch_returns i res s)"
  by (auto simp: sound_def fetch_returns_def split: sum.splits)

lemma sound_step: "sound s \<Longrightarrow> sound (step st rt s ev)"
proof (cases ev)
  case (Message raw)
  assume s: "sound s"
  show ?thesis
  proof (cases "es_closed s")
    case True
    with s Message show ?thesis by (simp add: step_def dispatched_def)
  next
    case False
    with Message have eq: "step st rt s ev = foldl (apply_action st rt) s (onmessage_of st rt raw)"
      by (simp add: step_def dispatched_def)
    from onmessage_of_cases[of st rt raw] s sound_onError_close[OF s] sound_onDone_close[OF s, of st rt]
    show ?thesis unfolding eq
      by (elim disjE exE) (auto simp: sound_def)
  qed
next
  case ConnectionError
  assume s: "sound s"
  show ?thesis using s sound_onError_close[OF s] ConnectionError
    by (auto simp: step_def dispatched_def stream_onerror_def)
next
  case CloseCall
  assume "sound s"
  then show ?thesis using CloseCall by (simp add: step_def sound_def)
next
  case (FetchReturns i res)
  assume "sound s"
  then show ?thesis using FetchReturns by (simp add: step_def sound_fetch)
qed

lemma sound_run: "sound s \<Longrightarrow> sound (run st rt s evs)"
  unfolding run_def by (induction evs arbitrary: s) (simp_all add: sound_step)

subsection \<open>Malformed frames\<close>

lemma run_append: "run st rt s (xs @ ys) = run st rt (run st rt s xs) ys"
  by (simp add: run_def)

lemma run_Cons: "run st rt s (ev # evs) = run st rt (step st rt s ev) evs"
  by (simp add: run_def)

lemma page_run_append: "page_run rt cw p (xs @ ys) = page_run rt cw (page_run rt cw p xs) ys"
  by (simp add: page_run_def)

lemma page_run_Cons: "page_run rt cw p (ev # evs) = page_run rt cw (page_step rt cw p ev) evs"
  by (simp add: page_run_def)

lemma malformed_no_actions:
  assumes "JSON_parse rt raw = None"
  shows "stream_onmessage k rt raw = []" and "coverWithStream_onmessage rt raw = []"
    and "onmessage_of st rt raw = []"
  using assms
  by (simp_all add: stream_onmessage_def coverWithStream_onmessage_def parseSseJson_def
      onmessage_of_def rewriteWithStream_onmessage_def reviewWithStream_onmessage_def
      split: starter.split)

lemma extract_chunks_append:
  "extract_chunks rt nm now xs (cs1 @ cs2) =
     (case extract_chunks rt nm now xs cs1 of Inl t \<Rightarrow> Inl t
      | Inr xs' \<Rightarrow> extract_chunks rt nm now xs' cs2)"
  by (induction cs1 arbitrary: xs) (simp_all split: option.split sum.split)

lemma map_filter_append: "List.map_filter f (xs @ ys) = List.map_filter f xs @ List.map_filter f ys"
  by (simp add: List.map_filter_def)

text \<open>
  C8. A message whose text \<^verbatim>\<open>JSON.parse\<close> rejects is dropped: the handler of every starter
  invokes no callback and does not close the connection, so the session, or the page,
  ends in the state it reaches without that message, and the messages after it are
  handled as ever. In the chunked transport a chunk whose \<^verbatim>\<open>data: \<close> line has such a body
  yields no frame, nothing is thrown, and the loop goes on with the next chunk.
\<close>

theorem malformed_frame_dropped:
  assumes "JSON_parse rt raw = None"
  shows "dispatched (onmessage_of st) rt c (Message raw) = [] \<and>
    run st rt (s :: ('e, 'r) session) (before @ Message raw # after) = run st rt s (before @ after) \<and>
    page_run rt cw p (pbefore @ SourceMessage i raw # pafter) = page_run rt cw p (pbefore @ pafter) \<and>
    (find (\<lambda>line. take 6 line = ''data: '') (js_split [NL] chunk) = Some (''data: '' @ raw) \<longrightarrow>
       parsed_chunk rt chunk = None \<and>
       extract_chunks rt nm now xs (cs1 @ chunk # cs2) = extract_chunks rt nm now xs (cs1 @ cs2) \<and>
       List.map_filter (parsed_chunk rt) (cs1 @ chunk # cs2) =
         List.map_filter (parsed_chunk rt) (cs1 @ cs2))"
proof -
  have none: "onmessage_of st rt raw = []" "rewriteWithStream_onmessage rt raw = []"
    using malformed_no_actions[OF assms] by (simp_all add: rewriteWithStream_onmessage_def)
  have a: "dispatched (onmessage_of st) rt c (Message raw) = []"
    by (simp add: dispatched_def none)
  have "step st rt s' (Message raw) = s'" for s' :: "('e, 'r) session"
    by (simp add: step_def dispatched_def none)
  then have b: "run st rt s (before @ Message raw # after) = run st rt s (before @ after)"
    by (simp add: run_append run_Cons)
  have "page_step rt cw p' (SourceMessage i raw) = p'" for p'
    by (simp add: page_step_def none)
  then have c: "page_run rt cw p (pbefore @ SourceMessage i raw # pafter) = page_run rt cw p (pbefore @ pafter)"
    by (simp add: page_run_append page_run_Cons)
  have d: "parsed_chunk rt chunk = None"
    if "find (\<lambda>line. take 6 line = ''data: '') (js_split [NL] chunk) = Some (''data: '' @ raw)"
    using that assms by (simp add: parsed_chunk_def parseSseJson_def)
  have e: "extract_chunks rt nm now xs (cs1 @ chunk # cs2) = extract_chunks rt nm now xs (cs1 @ cs2)"
    if "parsed_chunk rt chunk = None"
    using that by (simp add: extract_chunks_append split: sum.split)
  have f: "List.map_filter (parsed_chunk rt) (cs1 @ chunk # cs2) =
         List.map_filter (parsed_chunk rt) (cs1 @ cs2)"
    if "parsed_chunk rt chunk = None"
    using that by (simp add: List.map_filter_def)
  from a b c d e f show ?thesis by blast
qed

subsection \<open>Evaluating the concrete runtime\<close>

lemmas wire_defs = wire_start42_def wire_hello_def wire_world_def wire_done_def wire_start_noid_def
  wire_x_def wire_done_noid_def wire_error_def wire_mystery_def wire_malformed_def

lemma demo_frames:
  "parseSseJson demo_runtime wire_start42 = JObj [(''type'', JStr ''start''), (''task_id'', JNum 42)]"
  "parseSseJson demo_runtime wire_hello = JObj [(''type'', JStr ''content''), (''delta'', JStr ''Hello'')]"
  "parseSseJson demo_runtime wire_world = JObj [(''type'', JStr ''content''), (''delta'', JStr '', World!'')]"
  "parseSseJson demo_runtime wire_done =
     JObj [(''type'', JStr ''done''), (''final_content'', JStr ''Hello, World!''), (''actual_words'', JNum 2)]"
  "parseSseJson demo_runtime wire_start_noid = JObj [(''type'', JStr ''start'')]"
  "parseSseJson demo_runtime wire_x = JObj [(''type'', JStr ''content''), (''delta'', JStr ''x'')]"
  "parseSseJson demo_runtime wire_done_noid = JObj [(''type'', JStr ''done'')]"
  "parseSseJson demo_runtime wire_error = JObj [(''type'', JStr ''error''), (''message'', JStr ''boom'')]"
  "parseSseJson demo_runtime wire_mystery = JObj [(''type'', JStr ''mystery'')]"
  "parseSseJson demo_runtime wire_malformed = JNull"
  "JSON_parse demo_runtime wire_malformed = None"
  by (simp_all add: parseSseJson_def demo_runtime_def demo_parse_def wire_defs)

lemma demo_stream_actions:
  assumes "k = ''task_id'' \<or> k = ''review_id''"
  shows "stream_onmessage k demo_runtime wire_hello = [OnChunk ''Hello'']"
  "stream_onmessage k demo_runtime wire_world = [OnChunk '', World!'']"
  "stream_onmessage k demo_runtime wire_done = [OnDone (parseSseJson demo_runtime wire_done), Close]"
  "stream_onmessage k demo_runtime wire_start_noid = []"
  "stream_onmessage k demo_runtime wire_x = [OnChunk ''x'']"
  "stream_onmessage k demo_runtime wire_done_noid = [OnDone (parseSseJson demo_runtime wire_done_noid), Close]"
  "stream_onmessage k demo_runtime wire_error = [OnError ''boom'', Close]"
  "stream_onmessage k demo_runtime wire_mystery = []"
  "stream_onmessage k demo_runtime wire_malformed = []"
  using assms
  by (auto simp add: stream_onmessage_def demo_frames or_else_def js_String_def js_Number_def)

lemma demo_start42: "stream_onmessage ''task_id'' demo_runtime wire_start42 = [OnStart 42]"
  by (simp add: stream_onmessage_def demo_frames or_else_def js_Number_def)

lemmas demo_rewrite_actions = demo_start42 demo_stream_actions[of "''task_id''", simplified]

lemmas demo_review_actions = demo_stream_actions[of "''review_id''", simplified]

lemma demo_cover_actions:
  "coverWithStream_onmessage demo_runtime wire_mystery = [OnProgress (parseSseJson demo_runtime wire_mystery)]"
  "coverWithStream_onmessage demo_runtime wire_done_noid =
     [OnProgress (parseSseJson demo_runtime wire_done_noid), OnDone (parseSseJson demo_runtime wire_done_noid), Close]"
  "coverWithStream_onmessage demo_runtime wire_error = [OnError ''boom'', Close]"
  by (simp_all add: coverWithStream_onmessage_def demo_frames or_else_def js_String_def Let_def)

lemma demo_data_line:
  "find (\<lambda>line. take 6 line = ''data: '') (js_split [NL] (''data: '' @ wire_malformed)) =
     Some (''data: '' @ wire_malformed)"
  by (simp add: wire_defs NL_def)

lemma step_Message:
  "step st rt s (Message raw) =
     (if es_closed s then s else foldl (apply_action st rt) s (onmessage_of st rt raw))"
  by (simp add: step_def dispatched_def)

lemma step_ConnectionError:
  "step st rt s ConnectionError =
     (if es_closed s then s else starter_onError ''Connection error'' s\<lparr>es_closed := True\<rparr>)"
  by (simp add: step_def dispatched_def stream_onerror_def)

lemma step_CloseCall: "step st rt s CloseCall = s\<lparr>es_closed := True\<rparr>"
  by (simp add: step_def)

lemma step_FetchReturns: "step st rt s (FetchReturns i res) = fetch_returns i res s"
  by (simp add: step_def)

lemma onmessage_of_simps:
  "onmessage_of StartRewrite = stream_onmessage ''task_id''"
  "onmessage_of StartReview = stream_onmessage ''review_id''"
  "onmessage_of StartCover = coverWithStream_onmessage"
  by (simp_all add: onmessage_of_def rewriteWithStream_onmessage_def reviewWithStream_onmessage_def)

theorem malformed_frame_dropped_witness:
  "JSON_parse demo_runtime wire_malformed = None \<and>
   run StartRewrite demo_runtime (init_session :: (unit, unit) session)
     [Message wire_start42, Message wire_malformed, Message wire_done] =
   run StartRewrite demo_runtime init_session [Message wire_start42, Message wire_done] \<and>
   fetches (run StartRewrite demo_runtime (init_session :: (unit, unit) session)
     [Message wire_start42, Message wire_malformed, Message wire_done]) = [42] \<and>
   find (\<lambda>line. take 6 line = ''data: '') (js_split [NL] (''data: '' @ wire_malformed)) =
     Some (''data: '' @ wire_malformed) \<and>
   parsed_chunk demo_runtime (''data: '' @ wire_malformed) = None"
proof -
  have h: "JSON_parse demo_runtime wire_malformed = None" by (simp add: demo_frames)
  have f: "fetches (run StartRewrite demo_runtime (init_session :: (unit, unit) session)
     [Message wire_start42, Message wire_done]) = [42]"
    by (simp add: run_def step_Message onmessage_of_simps demo_rewrite_actions init_session_def
        text_onDone_def)
  note t = malformed_frame_dropped[OF h, where st = StartRewrite
      and s = "init_session :: (unit, unit) session" and before = "[Message wire_start42]"
      and after = "[Message wire_done]" and chunk = "''data: '' @ wire_malformed"]
  have r: "run StartRewrite demo_runtime (init_session :: (unit, unit) session)
     [Message wire_start42, Message wire_malformed, Message wire_done] =
     run StartRewrite demo_runtime init_session [Message wire_start42, Message wire_done]"
    using t[THEN conjunct2, THEN conjunct1] by simp
  have pc: "parsed_chunk demo_runtime (''data: '' @ wire_malformed) = None"
    using t demo_data_line by blast
  show ?thesis using h r f pc demo_data_line by (simp only: simp_thms)
qed

section \<open>Errors of a session\<close>

lemma not_closed_pending:
  "sound s \<Longrightarrow> \<not> es_closed s \<Longrightarrow> completion s = Pending \<and> \<not> settled s \<and> fetches s = []"
  by (auto simp: sound_def)

lemma error_frame_actions:
  assumes "property (parseSseJson rt raw) ''type'' = Some (JStr ''error'')"
    and "property (parseSseJson rt raw) ''message'' = Some m" and "truthy m"
  shows "onmessage_of st rt raw = [OnError (js_String rt m), Close]"
proof -
  have t: "truthy (parseSseJson rt raw)"
    using assms(1) by (cases "parseSseJson rt raw") simp_all
  show ?thesis using assms t
    by (cases st) (simp_all add: onmessage_of_simps stream_onmessage_def
        coverWithStream_onmessage_def or_else_def)
qed

text \<open>
  C9. In a session of any starter whose connection is still open, an \<^verbatim>\<open>error\<close> frame
  with a message rejects the promise with that message and closes the connection; a
  failure of the connection rejects it with \<^verbatim>\<open>Connection error\<close> and closes the
  connection.
\<close>

theorem error_propagation:
  assumes "s = run st rt init_session evs" and "\<not> es_closed s"
  shows "(property (parseSseJson rt raw) ''type'' = Some (JStr ''error'') \<and>
          property (parseSseJson rt raw) ''message'' = Some m \<and> truthy m \<longrightarrow>
            completion (step st rt s (Message raw)) = Rejected (Error (js_String rt m)) \<and>
            es_closed (step st rt s (Message raw))) \<and>
         completion (step st rt s ConnectionError) = Rejected (Error ''Connection error'') \<and>
         es_closed (step st rt s ConnectionError)"
proof -
  have "sound s" using assms(1) sound_run[OF sound_init] by simp
  then have p: "completion s = Pending" "\<not> settled s"
    using not_closed_pending assms(2) by blast+
  have a: "completion (step st rt s (Message raw)) = Rejected (Error (js_String rt m)) \<and>
            es_closed (step st rt s (Message raw))"
    if "property (parseSseJson rt raw) ''type'' = Some (JStr ''error'')"
      "property (parseSseJson rt raw) ''message'' = Some m" "truthy m"
    using error_frame_actions[OF that, of st] p assms(2)
    by (simp add: step_Message starter_onError_def reject_def)
  have b: "completion (step st rt s ConnectionError) = Rejected (Error ''Connection error'') \<and>
         es_closed (step st rt s ConnectionError)"
    using p assms(2) by (simp add: step_ConnectionError starter_onError_def reject_def)
  from a b show ?thesis by blast
qed

theorem error_propagation_witness:
  "\<not> es_closed (run StartRewrite demo_runtime (init_session :: (unit, unit) session) [Message wire_start42, Message wire_hello]) \<and>
   property (parseSseJson demo_runtime wire_error) ''type'' = Some (JStr ''error'') \<and>
   property (parseSseJson demo_runtime wire_error) ''message'' = Some (JStr ''boom'') \<and>
   truthy (JStr ''boom'') \<and>
   completion (run StartRewrite demo_runtime (init_session :: (unit, unit) session)
     [Message wire_start42, Message wire_hello, Message wire_error]) = Rejected (Error ''boom'') \<and>
   es_closed (run StartRewrite demo_runtime (init_session :: (unit, unit) session)
     [Message wire_start42, Message wire_hello, Message wire_error]) \<and>
   completion (run StartRewrite demo_runtime (init_session :: (unit, unit) session)
     [Message wire_start42, Message wire_hello, ConnectionError]) = Rejected (Error ''Connection error'')"
proof -
  let ?s = "run StartRewrite demo_runtime (init_session :: (unit, unit) session) [Message wire_start42, Message wire_hello]"
  have o: "\<not> es_closed ?s"
    by (simp add: run_def step_Message onmessage_of_simps demo_rewrite_actions init_session_def)
  have f: "property (parseSseJson demo_runtime wire_error) ''type'' = Some (JStr ''error'')"
    "property (parseSseJson demo_runtime wire_error) ''message'' = Some (JStr ''boom'')"
    "truthy (JStr ''boom'')"
    by (simp_all add: demo_frames)
  note t = error_propagation[OF refl o, where raw = wire_error and m = "JStr ''boom''"]
  have e1: "run StartRewrite demo_runtime (init_session :: (unit, unit) session)
     [Message wire_start42, Message wire_hello, Message wire_error] = step StartRewrite demo_runtime ?s (Message wire_error)"
    by (simp add: run_def)
  have e2: "run StartRewrite demo_runtime (init_session :: (unit, unit) session)
     [Message wire_start42, Message wire_hello, ConnectionError] = step StartRewrite demo_runtime ?s ConnectionError"
    by (simp add: run_def)
  have j: "js_String demo_runtime (JStr ''boom'') = ''boom''" by (simp add: js_String_def)
  show ?thesis unfolding e1 e2 using t o f j by simp
qed

section \<open>Frames of an unknown type\<close>

lemma step_closed: "es_closed s \<Longrightarrow> fetches s = [] \<Longrightarrow> step st rt s ev = s"
  by (cases ev) (simp_all add: step_Message step_ConnectionError step_CloseCall
      step_FetchReturns fetch_returns_def)

lemma run_closed: "es_closed s \<Longrightarrow> fetches s = [] \<Longrightarrow> run st rt s evs = s"
  by (induction evs) (simp_all add: run_def step_closed)

lemma unknown_stream_type:
  assumes "property (parseSseJson rt raw) ''type'' \<notin>
    {Some (JStr ''content''), Some (JStr ''start''), Some (JStr ''done''), Some (JStr ''error'')}"
  shows "stream_onmessage k rt raw = []"
  using assms by (auto simp add: stream_onmessage_def Let_def split: option.split json.split)

text \<open>
  C7, as the code has it. In \<^verbatim>\<open>rewriteWithStream\<close> and \<^verbatim>\<open>reviewWithStream\<close> a frame whose
  type is none of \<^verbatim>\<open>content\<close>, \<^verbatim>\<open>start\<close>, \<^verbatim>\<open>done\<close>, \<^verbatim>\<open>error\<close> invokes no callback and
  leaves the session and the page as they are; in \<^verbatim>\<open>extractStyleWithStream\<close> a frame
  whose type is none of \<^verbatim>\<open>start\<close>, \<^verbatim>\<open>progress\<close>, \<^verbatim>\<open>content\<close>, \<^verbatim>\<open>error\<close>, \<^verbatim>\<open>done\<close> invokes
  no callback and leaves the loop's state as it is. \<^verbatim>\<open>coverWithStream\<close> passes every
  frame that is not an \<^verbatim>\<open>error\<close> to \<^verbatim>\<open>onProgress\<close>: for a frame that is neither
  \<^verbatim>\<open>error\<close> nor \<^verbatim>\<open>done\<close>, an unknown type included, \<^verbatim>\<open>onProgress\<close> is the one callback
  invoked, and the connection stays open.
\<close>

theorem unknown_type_handling:
  "((property (parseSseJson rt raw) ''type'' \<notin>
       {Some (JStr ''content''), Some (JStr ''start''), Some (JStr ''done''), Some (JStr ''error'')}) \<longrightarrow>
      rewriteWithStream_onmessage rt raw = [] \<and> reviewWithStream_onmessage rt raw = [] \<and>
      step StartRewrite rt s (Message raw) = s \<and> step StartReview rt s (Message raw) = s \<and>
      page_step rt cw p (SourceMessage i raw) = p) \<and>
   (js_String rt (or_else (property parsed ''type'') (JStr [])) \<notin>
        {''start'', ''progress'', ''content'', ''error'', ''done''} \<longrightarrow>
      extract_frame rt request_name now parsed xs = Inr xs) \<and>
   (truthy (parseSseJson rt raw) \<and>
    property (parseSseJson rt raw) ''type'' \<noteq> Some (JStr ''error'') \<and>
    property (parseSseJson rt raw) ''type'' \<noteq> Some (JStr ''done'') \<longrightarrow>
      coverWithStream_onmessage rt raw = [OnProgress (parseSseJson rt raw)])"
proof -
  have a: "rewriteWithStream_onmessage rt raw = [] \<and> reviewWithStream_onmessage rt raw = [] \<and>
      step StartRewrite rt s (Message raw) = s \<and> step StartReview rt s (Message raw) = s \<and>
      page_step rt cw p (SourceMessage i raw) = p"
    if "property (parseSseJson rt raw) ''type'' \<notin>
       {Some (JStr ''content''), Some (JStr ''start''), Some (JStr ''done''), Some (JStr ''error'')}"
    using unknown_stream_type[OF that]
    by (simp add: rewriteWithStream_onmessage_def reviewWithStream_onmessage_def step_Message
        onmessage_of_simps page_step_def)
  have b: "extract_frame rt request_name now parsed xs = Inr xs"
    if "js_String rt (or_else (property parsed ''type'') (JStr [])) \<notin>
        {''start'', ''progress'', ''content'', ''error'', ''done''}"
    using that by (simp add: extract_frame_def Let_def)
  have c: "coverWithStream_onmessage rt raw = [OnProgress (parseSseJson rt raw)]"
    if "truthy (parseSseJson rt raw)"
      "property (parseSseJson rt raw) ''type'' \<noteq> Some (JStr ''error'')"
      "property (parseSseJson rt raw) ''type'' \<noteq> Some (JStr ''done'')"
    using that by (simp add: coverWithStream_onmessage_def Let_def)
  from a b c show ?thesis by blast
qed

theorem unknown_type_handling_witness:
  "(property (parseSseJson demo_runtime wire_mystery) ''type'' \<notin>
       {Some (JStr ''content''), Some (JStr ''start''), Some (JStr ''done''), Some (JStr ''error'')}) \<and>
   rewriteWithStream_onmessage demo_runtime wire_mystery = [] \<and>
   step StartReview demo_runtime (init_session :: (unit, unit) session) (Message wire_mystery) =
     init_session \<and>
   js_String demo_runtime
       (or_else (property (parseSseJson demo_runtime wire_mystery) ''type'') (JStr [])) \<notin>
     {''start'', ''progress'', ''content'', ''error'', ''done''} \<and>
   extract_frame demo_runtime ''s'' ''now'' (parseSseJson demo_runtime wire_mystery)
       \<lparr>buffer = [], createdStyle = None, calls = []\<rparr> =
     Inr \<lparr>buffer = [], createdStyle = None, calls = []\<rparr> \<and>
   truthy (parseSseJson demo_runtime wire_mystery) \<and>
   coverWithStream_onmessage demo_runtime wire_mystery =
     [OnProgress (JObj [(''type'', JStr ''mystery'')])]"
proof -
  have h1: "property (parseSseJson demo_runtime wire_mystery) ''type'' \<notin>
       {Some (JStr ''content''), Some (JStr ''start''), Some (JStr ''done''), Some (JStr ''error'')}"
    by (simp add: demo_frames)
  have h2: "js_String demo_runtime
       (or_else (property (parseSseJson demo_runtime wire_mystery) ''type'') (JStr [])) \<notin>
     {''start'', ''progress'', ''content'', ''error'', ''done''}"
    by (simp add: demo_frames or_else_def js_String_def)
  have h3: "truthy (parseSseJson demo_runtime wire_mystery)"
    "property (parseSseJson demo_runtime wire_mystery) ''type'' \<noteq> Some (JStr ''error'')"
    "property (parseSseJson demo_runtime wire_mystery) ''type'' \<noteq> Some (JStr ''done'')"
    by (simp_all add: demo_frames)
  note t = unknown_type_handling[where rt = demo_runtime and raw = wire_mystery
      and s = "init_session :: (unit, unit) session"
      and parsed = "parseSseJson demo_runtime wire_mystery" and request_name = "''s''"
      and now = "''now''" and xs = "\<lparr>buffer = [], createdStyle = None, calls = []\<rparr>"]
  have c1: "rewriteWithStream_onmessage demo_runtime wire_mystery = []"
    "step StartReview demo_runtime (init_session :: (unit, unit) session) (Message wire_mystery) =
     init_session"
    using t h1 by blast+
  have c2: "extract_frame demo_runtime ''s'' ''now'' (parseSseJson demo_runtime wire_mystery)
       \<lparr>buffer = [], createdStyle = None, calls = []\<rparr> =
     Inr \<lparr>buffer = [], createdStyle = None, calls = []\<rparr>"
    using t h2 by blast
  have c3: "coverWithStream_onmessage demo_runtime wire_mystery =
     [OnProgress (JObj [(''type'', JStr ''mystery'')])]"
    using t h3 by (simp add: demo_frames)
  from h1 h2 h3(1) c1 c2 c3 show ?thesis by blast
qed

text \<open>
  C7 as stated fails for cover generation: a frame of the unknown type \<^verbatim>\<open>mystery\<close>
  reaches \<^verbatim>\<open>onProgress\<close>.
\<close>

theorem cover_unknown_type_counterexample:
  "property (parseSseJson demo_runtime wire_mystery) ''type'' = Some (JStr ''mystery'') \<and>
   dispatched coverWithStream_onmessage demo_runtime False
       (Message wire_mystery :: (unit, unit) event) =
     [OnProgress (JObj [(''type'', JStr ''mystery'')])]"
  by (simp add: dispatched_def demo_cover_actions demo_frames)

section \<open>Settling the promise\<close>

lemma resolve_settled: "p \<noteq> Pending \<Longrightarrow> resolve v p = p"
  by (cases p) (simp_all add: resolve_def)

lemma reject_settled: "p \<noteq> Pending \<Longrightarrow> reject e p = p"
  by (cases p) (simp_all add: reject_def)

lemma apply_action_completion:
  "completion s \<noteq> Pending \<Longrightarrow> completion (apply_action st rt s a) = completion s"
  by (cases a) (simp_all add: starter_onError_def text_onDone_def startCover_onDone_def
      reject_settled split: option.split)

lemma fetch_returns_completion:
  "completion s \<noteq> Pending \<Longrightarrow> completion (fetch_returns i res s) = completion s"
  by (simp add: fetch_returns_def resolve_settled reject_settled split: sum.split)

lemma invoke_completion:
  "completion s \<noteq> Pending \<Longrightarrow> completion (invoke st rt s iv) = completion s"
  by (cases iv) (simp_all add: invoke_def apply_action_completion fetch_returns_completion)

lemma invoke_all_completion:
  "completion s \<noteq> Pending \<Longrightarrow> completion (invoke_all st rt s ivs) = completion s"
  unfolding invoke_all_def
  by (induction ivs arbitrary: s) (simp_all add: invoke_completion)

lemma invoke_all_append:
  "invoke_all st rt s (xs @ ys) = invoke_all st rt (invoke_all st rt s xs) ys"
  by (simp add: invoke_all_def)

lemma flag_apply_action:
  "(completion s \<noteq> Pending \<longrightarrow> settled s) \<Longrightarrow>
   completion (apply_action st rt s a) \<noteq> Pending \<longrightarrow> settled (apply_action st rt s a)"
  by (cases a) (auto simp: starter_onError_def text_onDone_def startCover_onDone_def
      split: option.split)

lemma flag_fetch_returns:
  "(completion s \<noteq> Pending \<longrightarrow> settled s) \<Longrightarrow>
   completion (fetch_returns i res s) \<noteq> Pending \<longrightarrow> settled (fetch_returns i res s)"
  by (auto simp: fetch_returns_def split: sum.split)

lemma flag_invoke_all:
  "(completion s \<noteq> Pending \<longrightarrow> settled s) \<Longrightarrow>
   completion (invoke_all st rt s ivs) \<noteq> Pending \<longrightarrow> settled (invoke_all st rt s ivs)"
  unfolding invoke_all_def
proof (induction ivs arbitrary: s)
  case Nil
  then show ?case by simp
next
  case (Cons iv ivs)
  have "completion (invoke st rt s iv) \<noteq> Pending \<longrightarrow> settled (invoke st rt s iv)"
    using Cons.prems flag_apply_action[of s st rt] flag_fetch_returns[of s]
    by (cases iv) (simp_all add: invoke_def)
  then show ?case using Cons.IH by simp
qed

lemma settled_callbacks:
  "settled s \<Longrightarrow> apply_action st rt s (OnError error) = s"
  "settled s \<Longrightarrow> apply_action st rt s (OnDone d) = s"
  by (simp_all add: starter_onError_def text_onDone_def startCover_onDone_def)

text \<open>
  C10. Whatever the order in which \<^verbatim>\<open>onStart\<close>, \<^verbatim>\<open>onError\<close>, \<^verbatim>\<open>onDone\<close> and the other
  callbacks of a starter are invoked and record fetches return: once the promise is
  settled its value never changes; from then on the flag \<^verbatim>\<open>settled\<close> is set, so an
  invocation of \<^verbatim>\<open>onError\<close> or \<^verbatim>\<open>onDone\<close> changes nothing at all and issues no fetch.
\<close>

theorem settled_at_most_once:
  "completion (invoke_all st rt init_session ivs) \<noteq> Pending \<longrightarrow>
     completion (invoke_all st rt init_session (ivs @ later)) =
       completion (invoke_all st rt init_session ivs) \<and>
     settled (invoke_all st rt init_session ivs) \<and>
     apply_action st rt (invoke_all st rt init_session ivs) (OnError error) =
       invoke_all st rt init_session ivs \<and>
     apply_action st rt (invoke_all st rt init_session ivs) (OnDone d) =
       invoke_all st rt init_session ivs"
proof
  let ?s = "invoke_all st rt init_session ivs"
  assume p: "completion ?s \<noteq> Pending"
  have "completion (init_session :: ('a, 'b) session) \<noteq> Pending \<longrightarrow>
      settled (init_session :: ('a, 'b) session)"
    by (simp add: init_session_def)
  from flag_invoke_all[OF this] p have f: "settled ?s" by blast
  have a: "completion (invoke_all st rt init_session (ivs @ later)) = completion ?s"
    using p by (simp add: invoke_all_append invoke_all_completion)
  have b: "apply_action st rt ?s (OnError error) = ?s" "apply_action st rt ?s (OnDone d) = ?s"
    using f by (rule settled_callbacks)+
  from a f b show "completion (invoke_all st rt init_session (ivs @ later)) = completion ?s \<and>
     settled ?s \<and> apply_action st rt ?s (OnError error) = ?s \<and>
     apply_action st rt ?s (OnDone d) = ?s" by blast
qed

text \<open>
  An instance: \<^verbatim>\<open>onDone\<close> starts the fetch of record 42, \<^verbatim>\<open>onError\<close> rejects before the
  fetch returns, and the record that arrives afterwards does not change the rejection.
\<close>

theorem settled_at_most_once_witness:
  "completion (invoke_all StartRewrite demo_runtime (init_session :: (unit, nat) session)
      [Invoke (OnStart 42), Invoke (OnDone JNull), Invoke (OnError ''late'')]) =
     Rejected (Error ''late'') \<and>
   completion (invoke_all StartRewrite demo_runtime (init_session :: (unit, nat) session)
      ([Invoke (OnStart 42), Invoke (OnDone JNull), Invoke (OnError ''late'')] @
       [Returns 42 (Inr 7), Invoke (OnDone JNull), Invoke (OnError ''again'')])) =
     Rejected (Error ''late'')"
proof -
  have c: "completion (invoke_all StartRewrite demo_runtime (init_session :: (unit, nat) session)
      [Invoke (OnStart 42), Invoke (OnDone JNull), Invoke (OnError ''late'')]) =
     Rejected (Error ''late'')"
    by (simp add: invoke_all_def invoke_def init_session_def text_onDone_def starter_onError_def
        reject_def)
  then have "completion (invoke_all StartRewrite demo_runtime (init_session :: (unit, nat) session)
      [Invoke (OnStart 42), Invoke (OnDone JNull), Invoke (OnError ''late'')]) \<noteq> Pending"
    by simp
  with settled_at_most_once[where st = StartRewrite and rt = demo_runtime
      and ivs = "[Invoke (OnStart 42), Invoke (OnDone JNull), Invoke (OnError ''late'')]"
      and later = "[Returns 42 (Inr 7), Invoke (OnDone JNull), Invoke (OnError ''again'')]"] c
  show ?thesis by metis
qed

section \<open>One open connection per page\<close>

lemma nth_update_True: "j < length xs \<Longrightarrow> xs ! j \<Longrightarrow> xs[i := True] ! j"
  by (cases "i = j") simp_all

lemma page_action_sources:
  "eventSourceRef (page_action rt cw i p a) = eventSourceRef p \<and>
   length (sources (page_action rt cw i p a)) = length (sources p) \<and>
   (\<forall>j < length (sources p). sources p ! j \<longrightarrow> sources (page_action rt cw i p a) ! j)"
  by (cases a) (auto simp: page_onChunk_def page_onDone_def page_onError_def Let_def
      nth_update_True)

lemma page_actions_sources:
  "eventSourceRef (foldl (page_action rt cw i) p as) = eventSourceRef p \<and>
   length (sources (foldl (page_action rt cw i) p as)) = length (sources p) \<and>
   (\<forall>j < length (sources p). sources p ! j \<longrightarrow> sources (foldl (page_action rt cw i) p as) ! j)"
proof (induction as arbitrary: p)
  case Nil
  then show ?case by simp
next
  case (Cons a as)
  show ?case using Cons.IH[of "page_action rt cw i p a"] page_action_sources[of rt cw i p a]
    by auto
qed

lemma single_flight_actions:
  "single_flight p \<Longrightarrow> single_flight (foldl (page_action rt cw i) p as)"
  using page_actions_sources[of rt cw i p as] by (auto simp: single_flight_def)

lemma close_current_all_closed:
  "single_flight p \<Longrightarrow> \<forall>j < length (sources (close_current p)). sources (close_current p) ! j"
  by (auto simp: single_flight_def close_current_def nth_list_update split: option.split)

lemma close_current_length: "length (sources (close_current p)) = length (sources p)"
  by (simp add: close_current_def split: option.split)

lemma single_flight_close_current: "single_flight p \<Longrightarrow> single_flight (close_current p)"
  by (auto simp: single_flight_def close_current_def nth_list_update split: option.split)

lemma single_flight_open_stream:
  "\<forall>j < length (sources q). sources q ! j \<Longrightarrow> single_flight (open_stream q)"
  by (auto simp: single_flight_def open_stream_def nth_append)

lemma single_flight_cancel: "single_flight p \<Longrightarrow> single_flight (cancel p)"
  by (auto simp: single_flight_def cancel_def nth_list_update split: option.split)

lemma single_flight_step: "single_flight p \<Longrightarrow> single_flight (page_step rt cw p ev)"
  by (cases ev)
    (simp_all add: page_step_def handleRewrite_def unmount_def single_flight_cancel
      single_flight_close_current single_flight_actions single_flight_open_stream
      close_current_all_closed)

lemma single_flight_init: "single_flight init_page"
  by (simp add: single_flight_def init_page_def)

lemma single_flight_run: "single_flight p \<Longrightarrow> single_flight (page_run rt cw p evs)"
  unfolding page_run_def by (induction evs arbitrary: p) (simp_all add: single_flight_step)

lemma open_sources_all_closed:
  "\<forall>j < length (sources q). sources q ! j \<Longrightarrow> open_sources q = []"
  by (simp add: open_sources_def filter_empty_conv)

lemma open_sources_open_stream:
  "\<forall>j < length (sources q). sources q ! j \<Longrightarrow> open_sources (open_stream q) = [length (sources q)]"
  by (simp add: open_sources_def open_stream_def nth_append filter_empty_conv)

lemma open_sources_at_most_one:
  assumes "single_flight p"
  shows "length (open_sources p) \<le> 1"
proof (cases "eventSourceRef p")
  case None
  with assms have "\<forall>j < length (sources p). sources p ! j" by (simp add: single_flight_def)
  then show ?thesis by (simp add: open_sources_all_closed)
next
  case (Some r)
  have d: "distinct (open_sources p)" by (simp add: open_sources_def)
  have "set (open_sources p) \<subseteq> {r}"
    using assms Some by (auto simp: open_sources_def single_flight_def)
  then have "card (set (open_sources p)) \<le> card {r}"
    by (intro card_mono) simp_all
  with d show ?thesis by (simp add: distinct_card)
qed

text \<open>
  C5. In every state the rewrite page can reach at most one of the connections it created
  is open. When \<^verbatim>\<open>handleRewrite\<close> starts a stream (its guard passes), the connection in
  the ref is closed first, so that every connection of the page is closed in the state
  in which the new one is opened; afterwards the new connection is the only open one
  and the ref holds it. In particular a first connection that was still open is closed
  before the second is opened.
\<close>

theorem single_flight_replacement:
  assumes "p = page_run rt cw init_page evs"
    and "sourceContent \<noteq> []" and "selectedStyleId = Some n" and "n \<noteq> 0"
  shows "length (open_sources p) \<le> 1 \<and>
    handleRewrite sourceContent selectedStyleId p = open_stream (close_current p) \<and>
    open_sources (close_current p) = [] \<and>
    (eventSourceRef p = Some first \<longrightarrow> sources (close_current p) ! first) \<and>
    open_sources (handleRewrite sourceContent selectedStyleId p) = [length (sources p)] \<and>
    eventSourceRef (handleRewrite sourceContent selectedStyleId p) = Some (length (sources p))"
proof -
  have sf: "single_flight p"
    using assms(1) single_flight_run[OF single_flight_init] by simp
  have h: "handleRewrite sourceContent selectedStyleId p = open_stream (close_current p)"
    using assms(2-4) by (simp add: handleRewrite_def)
  note c = close_current_all_closed[OF sf]
  have f: "sources (close_current p) ! first" if "eventSourceRef p = Some first"
    using that sf c by (simp add: single_flight_def close_current_length)
  have r: "eventSourceRef (open_stream (close_current p)) = Some (length (sources p))"
    by (simp add: open_stream_def close_current_length)
  from open_sources_at_most_one[OF sf] h open_sources_all_closed[OF c] f
    open_sources_open_stream[OF c] r
  show ?thesis by (simp add: close_current_length)
qed

text \<open>
  An instance: a first stream has received a content frame and is still open when
  \<^verbatim>\<open>handleRewrite\<close> runs again.
\<close>

theorem single_flight_replacement_witness:
  "open_sources (page_run demo_runtime (\<lambda>text. int (length text)) init_page
      [HandleRewrite ''hello world'' (Some 1), SourceMessage 0 wire_hello]) = [0] \<and>
   sources (close_current (page_run demo_runtime (\<lambda>text. int (length text)) init_page
      [HandleRewrite ''hello world'' (Some 1), SourceMessage 0 wire_hello])) = [True] \<and>
   open_sources (handleRewrite ''hello world'' (Some 1) (page_run demo_runtime (\<lambda>text. int (length text)) init_page
      [HandleRewrite ''hello world'' (Some 1), SourceMessage 0 wire_hello])) = [1] \<and>
   sources (handleRewrite ''hello world'' (Some 1) (page_run demo_runtime (\<lambda>text. int (length text)) init_page
      [HandleRewrite ''hello world'' (Some 1), SourceMessage 0 wire_hello])) = [True, False]"
proof -
  let ?p = "page_run demo_runtime (\<lambda>text. int (length text)) init_page
      [HandleRewrite ''hello world'' (Some 1), SourceMessage 0 wire_hello]"
  have p: "?p = \<lparr>sources = [False], eventSourceRef = Some 0, isLoading = True,
      rewrittenContent = ''Hello'', resultWordCount = 5\<rparr>"
    by (simp add: page_run_def page_step_def handleRewrite_def init_page_def close_current_def
        open_stream_def rewriteWithStream_onmessage_def demo_rewrite_actions page_onChunk_def)
  have g: "''hello world'' \<noteq> []" "(1::int) \<noteq> 0" by simp_all
  note t = single_flight_replacement[where rt = demo_runtime
      and cw = "\<lambda>text. int (length text)"
      and evs = "[HandleRewrite ''hello world'' (Some 1), SourceMessage 0 wire_hello]"
      and sourceContent = "''hello world''" and selectedStyleId = "Some 1" and n = 1
      and first = 0, OF refl g(1) refl g(2)]
  have t1: "handleRewrite ''hello world'' (Some 1) ?p = open_stream (close_current ?p)"
    using t by blast
  have t3: "open_sources (handleRewrite ''hello world'' (Some 1) ?p) = [length (sources ?p)]"
    using t by blast
  have a: "open_sources ?p = [0]" by (simp add: p open_sources_def)
  have b: "sources (close_current ?p) = [True]" by (simp add: p close_current_def)
  have c: "open_sources (handleRewrite ''hello world'' (Some 1) ?p) = [1]"
    unfolding t3 by (simp add: p)
  have d: "sources (handleRewrite ''hello world'' (Some 1) ?p) = [True, False]"
    unfolding t1 by (simp add: p close_current_def open_stream_def)
  from a b c d show ?thesis by blast
qed

section \<open>Cancellation\<close>

lemma cancel_all_closed:
  "single_flight p \<Longrightarrow> \<forall>j < length (sources (cancel p)). sources (cancel p) ! j"
  by (auto simp: single_flight_def cancel_def nth_list_update split: option.split)

lemma page_step_all_closed:
  "\<forall>j < length (sources q). sources q ! j \<Longrightarrow> is_source_event ev \<Longrightarrow> page_step rt cw q ev = q"
  by (cases ev) (auto simp add: page_step_def is_source_event_def)

lemma page_run_all_closed:
  "\<forall>j < length (sources q). sources q ! j \<Longrightarrow> \<forall>ev \<in> set evs. is_source_event ev \<Longrightarrow>
   page_run rt cw q evs = q"
  by (induction evs) (simp_all add: page_run_def page_step_all_closed)

text \<open>
  C6. A session whose connection is closed by a call of \<^verbatim>\<open>close()\<close> while it is still
  open (so before a terminal frame or a connection error was handled): the closed flag
  is set, and whatever happens afterwards (messages, connection errors, further calls of
  \<^verbatim>\<open>close()\<close>, fetch results) no callback is invoked, the session does not change and its
  promise stays pending. On the rewrite page the cancel button closes the connection in
  the ref and clears the ref; every connection of the page is then closed, and messages
  or errors of any of them leave the page as it is.
\<close>

theorem cancel_leaves_unsettled:
  assumes "s = run st rt init_session evs" and "\<not> es_closed s"
    and "p = page_run rt cw init_page pevs" and "\<forall>ev \<in> set pushed. is_source_event ev"
  shows "es_closed (step st rt s CloseCall) \<and>
    dispatched (onmessage_of st) rt (es_closed (step st rt s CloseCall)) ev = [] \<and>
    run st rt (step st rt s CloseCall) later = step st rt s CloseCall \<and>
    completion (run st rt (step st rt s CloseCall) later) = Pending \<and>
    open_sources (cancel p) = [] \<and> eventSourceRef (cancel p) = None \<and>
    page_run rt cw (cancel p) pushed = cancel p"
proof -
  have "sound s" using assms(1) sound_run[OF sound_init] by simp
  then have o: "completion s = Pending" "fetches s = []"
    using not_closed_pending assms(2) by blast+
  let ?c = "step st rt s CloseCall"
  have c: "es_closed ?c" "fetches ?c = []" "completion ?c = Pending"
    using o by (simp_all add: step_CloseCall)
  have d: "dispatched (onmessage_of st) rt (es_closed ?c) ev = []"
    using c(1) by (simp add: dispatched_def)
  have r: "run st rt ?c later = ?c"
    using c by (simp add: run_closed)
  have sf: "single_flight p"
    using assms(3) single_flight_run[OF single_flight_init] by simp
  note a = cancel_all_closed[OF sf]
  have e: "eventSourceRef (cancel p) = None"
    by (simp add: cancel_def split: option.split)
  from c(1) d r c(3) open_sources_all_closed[OF a] e page_run_all_closed[OF a assms(4)]
  show ?thesis by simp
qed

text \<open>
  An instance: one content frame, then the cancellation, then a \<^verbatim>\<open>done\<close> frame and a
  fetch result pushed into the closed session.
\<close>

theorem cancel_leaves_unsettled_witness:
  "\<not> es_closed (run StartRewrite demo_runtime (init_session :: (unit, nat) session)
      [Message wire_start42, Message wire_hello]) \<and>
   es_closed (run StartRewrite demo_runtime (init_session :: (unit, nat) session)
      [Message wire_start42, Message wire_hello, CloseCall]) \<and>
   completion (run StartRewrite demo_runtime (init_session :: (unit, nat) session)
      [Message wire_start42, Message wire_hello, CloseCall, Message wire_done,
       FetchReturns 42 (Inr 7), ConnectionError]) = Pending \<and>
   page_run demo_runtime (\<lambda>text. int (length text)) init_page
      [HandleRewrite ''hello world'' (Some 1), SourceMessage 0 wire_hello, Cancel,
       SourceMessage 0 wire_world, SourceMessage 0 wire_done, SourceError 0] =
     \<lparr>sources = [True], eventSourceRef = None, isLoading = False,
      rewrittenContent = ''Hello'', resultWordCount = 5\<rparr>"
proof -
  let ?s = "run StartRewrite demo_runtime (init_session :: (unit, nat) session)
      [Message wire_start42, Message wire_hello]"
  let ?p = "page_run demo_runtime (\<lambda>text. int (length text)) init_page
      [HandleRewrite ''hello world'' (Some 1), SourceMessage 0 wire_hello]"
  let ?pushed = "[SourceMessage 0 wire_world, SourceMessage 0 wire_done, SourceError 0]"
  have o: "\<not> es_closed ?s"
    by (simp add: run_def step_Message onmessage_of_simps demo_rewrite_actions init_session_def)
  have q: "\<forall>ev \<in> set ?pushed. is_source_event ev"
    by (simp add: is_source_event_def)
  note t = cancel_leaves_unsettled[where st = StartRewrite and rt = demo_runtime
      and evs = "[Message wire_start42, Message wire_hello]"
      and cw = "\<lambda>text. int (length text)"
      and pevs = "[HandleRewrite ''hello world'' (Some 1), SourceMessage 0 wire_hello]"
      and pushed = ?pushed
      and later = "[Message wire_done, FetchReturns 42 (Inr 7), ConnectionError]",
      OF refl o refl q]
  have e1: "run StartRewrite demo_runtime (init_session :: (unit, nat) session)
      [Message wire_start42, Message wire_hello, CloseCall] = step StartRewrite demo_runtime ?s CloseCall"
    by (simp add: run_def)
  have e2: "run StartRewrite demo_runtime (init_session :: (unit, nat) session)
      [Message wire_start42, Message wire_hello, CloseCall, Message wire_done,
       FetchReturns 42 (Inr 7), ConnectionError] =
      run StartRewrite demo_runtime (step StartRewrite demo_runtime ?s CloseCall)
        [Message wire_done, FetchReturns 42 (Inr 7), ConnectionError]"
    by (simp add: run_def)
  have p: "?p = \<lparr>sources = [False], eventSourceRef = Some 0, isLoading = True,
      rewrittenContent = ''Hello'', resultWordCount = 5\<rparr>"
    by (simp add: page_run_def page_step_def handleRewrite_def init_page_def close_current_def
        open_stream_def rewriteWithStream_onmessage_def demo_rewrite_actions page_onChunk_def)
  have e3: "page_run demo_runtime (\<lambda>text. int (length text)) init_page
      [HandleRewrite ''hello world'' (Some 1), SourceMessage 0 wire_hello, Cancel,
       SourceMessage 0 wire_world, SourceMessage 0 wire_done, SourceError 0] =
     page_run demo_runtime (\<lambda>text. int (length text)) (cancel ?p) ?pushed"
    by (simp add: page_run_def page_step_def)
  have t3: "page_run demo_runtime (\<lambda>text. int (length text)) (cancel ?p) ?pushed = cancel ?p"
    using t by blast
  have c: "cancel ?p = \<lparr>sources = [True], eventSourceRef = None, isLoading = False,
      rewrittenContent = ''Hello'', resultWordCount = 5\<rparr>"
    by (simp add: p cancel_def)
  have t1: "es_closed (step StartRewrite demo_runtime ?s CloseCall)"
    "completion (run StartRewrite demo_runtime (step StartRewrite demo_runtime ?s CloseCall)
        [Message wire_done, FetchReturns 42 (Inr 7), ConnectionError]) = Pending"
    using t by blast+
  have f: "page_run demo_runtime (\<lambda>text. int (length text)) init_page
      [HandleRewrite ''hello world'' (Some 1), SourceMessage 0 wire_hello, Cancel,
       SourceMessage 0 wire_world, SourceMessage 0 wire_done, SourceError 0] =
     \<lparr>sources = [True], eventSourceRef = None, isLoading = False,
      rewrittenContent = ''Hello'', resultWordCount = 5\<rparr>"
    by (rule trans[OF e3 trans[OF t3 c]])
  show ?thesis using o t1 f unfolding e1 e2 by blast
qed

section \<open>Splitting the text of the reads\<close>

lemma js_split_nonempty: "js_split sep s \<noteq> []"
  by (induction sep s rule: js_split.induct) (auto split: list.split)

lemma js_split_single: "js_split sep s = [x] \<Longrightarrow> x = s"
proof (induction sep s arbitrary: x rule: js_split.induct)
  case (1 sep)
  then show ?case by simp
next
  case (2 sep c cs)
  show ?case
  proof (cases "sep \<noteq> [] \<and> take (length sep) (c # cs) = sep")
    case True
    with "2.prems" show ?thesis by (simp add: js_split_nonempty)
  next
    case False
    with "2.prems" js_split_nonempty[of sep cs]
    obtain piece where p: "js_split sep cs = [piece]" "x = c # piece"
      by (auto split: list.splits)
    from "2.IH"(2)[OF False p(1)] p(2) show ?thesis by simp
  qed
qed

lemma js_split_short: "length s < length sep \<Longrightarrow> js_split sep s = [s]"
proof (induction s)
  case Nil
  then show ?case by simp
next
  case (Cons c cs)
  then have "take (length sep) (c # cs) \<noteq> sep"
    by (metis length_take less_irrefl min.absorb4 min.commute)
  with Cons show ?case by simp
qed

lemma take_full_length:
  assumes "take n xs = ys" and "length ys = n"
  shows "n \<le> length xs"
proof -
  have "length (take n xs) = n" using assms by blast
  then show ?thesis by simp
qed

lemma js_split_match:
  assumes "sep \<noteq> []" and "n = length sep" and "take n (c # cs) = sep"
  shows "js_split sep (c # cs) = [] # js_split sep (drop n (c # cs))"
  using assms(1) assms(3)[unfolded assms(2)] unfolding assms(2) by (simp only: js_split.simps if_True simp_thms)

lemma js_split_nomatch:
  assumes "n = length sep" and "take n (c # cs) \<noteq> sep" and "js_split sep cs = piece # pieces"
  shows "js_split sep (c # cs) = (c # piece) # pieces"
  using assms(2)[unfolded assms(1)] assms(3) by (simp only: js_split.simps simp_thms if_False list.case)

lemma js_split_append:
  assumes sep: "sep \<noteq> []"
  shows "js_split sep (s1 @ s2) =
    butlast (js_split sep s1) @ js_split sep (last (js_split sep s1) @ s2)"
proof (induction s1 rule: length_induct)
  case (1 s1)
  define n where "n = length sep"
  show ?case
  proof (cases s1)
    case Nil
    then show ?thesis by simp
  next
    case (Cons c cs)
    show ?thesis
    proof (cases "take n s1 = sep")
      case True
      then have le: "n \<le> length s1"
        by (rule take_full_length) (simp add: n_def)
      have n0: "0 < n" using sep by (simp add: n_def)
      have t: "take n (c # (cs @ s2)) = sep"
        using True le take_append[of n s1 s2] Cons by simp
      have d: "drop n (c # (cs @ s2)) = drop n s1 @ s2"
        using le drop_append[of n s1 s2] Cons by simp
      have "length (drop n s1) < length s1"
        using n0 Cons by simp
      then have ih: "js_split sep (drop n s1 @ s2) =
        butlast (js_split sep (drop n s1)) @
          js_split sep (last (js_split sep (drop n s1)) @ s2)"
        using "1.IH" by blast
      have l: "js_split sep (s1 @ s2) = [] # js_split sep (drop n s1 @ s2)"
        using js_split_match[OF sep n_def t] d Cons by simp
      have r: "js_split sep s1 = [] # js_split sep (drop n s1)"
        using js_split_match[OF sep n_def, of c cs] True Cons by simp
      show ?thesis unfolding l r ih
        by (simp add: js_split_nonempty)
    next
      case False
      note nomatch = this
      show ?thesis
      proof (cases "take n (c # (cs @ s2)) = sep")
        case True
        have "length s1 < length sep"
        proof (rule ccontr)
          assume "\<not> length s1 < length sep"
          then have "take n (c # (cs @ s2)) = take n s1"
            using take_append[of n s1 s2] Cons by (simp add: n_def)
          with True nomatch show False by simp
        qed
        then have "js_split sep s1 = [s1]" by (rule js_split_short)
        then show ?thesis by simp
      next
        case False
        have ih: "js_split sep (cs @ s2) =
          butlast (js_split sep cs) @ js_split sep (last (js_split sep cs) @ s2)"
          using "1.IH" Cons by simp
        obtain x xs where P: "js_split sep cs = x # xs"
          using js_split_nonempty[of sep cs] by (cases "js_split sep cs") auto
        have r: "js_split sep s1 = (c # x) # xs"
          using js_split_nomatch[OF n_def _ P, of c] nomatch Cons by simp
        show ?thesis
        proof (cases xs)
          case Nil
          with P have "x = cs" using js_split_single by blast
          with r Nil Cons show ?thesis by simp
        next
          case (Cons y ys)
          have "js_split sep (cs @ s2) =
            x # butlast (y # ys) @ js_split sep (last (y # ys) @ s2)"
            using ih P Cons by simp
          from js_split_nomatch[OF n_def False this]
          have l: "js_split sep (s1 @ s2) =
            (c # x) # butlast (y # ys) @ js_split sep (last (y # ys) @ s2)"
            using \<open>s1 = c # cs\<close> by simp
          show ?thesis unfolding l r Cons by simp
        qed
      qed
    qed
  qed
qed

lemma js_split_last_clean:
  assumes sep: "sep \<noteq> []"
  shows "js_split sep (last (js_split sep s)) = [last (js_split sep s)]"
proof (induction s rule: length_induct)
  case (1 s)
  define n where "n = length sep"
  show ?case
  proof (cases s)
    case Nil
    then show ?thesis by simp
  next
    case (Cons c cs)
    show ?thesis
    proof (cases "take n s = sep")
      case True
      have "0 < n" using sep by (simp add: n_def)
      then have "length (drop n s) < length s" using Cons by simp
      then have ih: "js_split sep (last (js_split sep (drop n s))) =
          [last (js_split sep (drop n s))]"
        using "1.IH" by blast
      have "js_split sep s = [] # js_split sep (drop n s)"
        using js_split_match[OF sep n_def, of c cs] True Cons by simp
      then show ?thesis using ih by (simp add: js_split_nonempty)
    next
      case False
      have ih: "js_split sep (last (js_split sep cs)) = [last (js_split sep cs)]"
        using "1.IH" Cons by simp
      obtain x xs where P: "js_split sep cs = x # xs"
        using js_split_nonempty[of sep cs] by (cases "js_split sep cs") auto
      have r: "js_split sep s = (c # x) # xs"
        using js_split_nomatch[OF n_def _ P, of c] False Cons by simp
      show ?thesis
      proof (cases xs)
        case Nil
        with P have "x = cs" using js_split_single by blast
        with r Nil Cons show ?thesis by simp
      next
        case (Cons y ys)
        with r P ih show ?thesis by simp
      qed
    qed
  qed
qed

lemma read_chunks_eq:
  "read_chunks buf text =
     (butlast (js_split [NL, NL] (buf @ text)), last (js_split [NL, NL] (buf @ text)))"
  by (simp add: read_chunks_def Let_def js_split_nonempty)

lemma butlast_append_nonempty: "ys \<noteq> [] \<Longrightarrow> butlast (xs @ ys) = xs @ butlast ys"
  by (simp add: butlast_append)

lemma runFullWorkflow_loop_concat:
  assumes "js_split [NL, NL] buf = [buf]"
  shows "runFullWorkflow_loop rt (buf, events) texts =
     (last (js_split [NL, NL] (buf @ concat texts)),
      events @ List.map_filter (parsed_chunk rt)
        (butlast (js_split [NL, NL] (buf @ concat texts))))"
  using assms
proof (induction texts arbitrary: buf events)
  case Nil
  then show ?case by (simp add: List.map_filter_def)
next
  case (Cons t ts)
  let ?S = "js_split [NL, NL] (buf @ t)"
  have clean: "js_split [NL, NL] (last ?S) = [last ?S]"
    by (rule js_split_last_clean) simp
  have sp: "js_split [NL, NL] (buf @ concat (t # ts)) =
      butlast ?S @ js_split [NL, NL] (last ?S @ concat ts)"
    using js_split_append[of "[NL, NL]" "buf @ t" "concat ts"] by simp
  have "runFullWorkflow_loop rt (buf, events) (t # ts) =
      runFullWorkflow_loop rt (last ?S, events @ List.map_filter (parsed_chunk rt) (butlast ?S)) ts"
    by (simp add: read_chunks_eq)
  also have "\<dots> = (last (js_split [NL, NL] (last ?S @ concat ts)),
      (events @ List.map_filter (parsed_chunk rt) (butlast ?S)) @
        List.map_filter (parsed_chunk rt) (butlast (js_split [NL, NL] (last ?S @ concat ts))))"
    by (rule Cons.IH[OF clean])
  finally show ?case
    unfolding sp
    by (simp add: js_split_nonempty butlast_append_nonempty map_filter_append)
qed

lemma runFullWorkflow_events_eq:
  "runFullWorkflow_events rt texts =
     List.map_filter (parsed_chunk rt) (butlast (js_split [NL, NL] (concat texts)))"
  using runFullWorkflow_loop_concat[of "[]" rt "[]" texts]
  by (simp add: runFullWorkflow_events_def)

lemma extract_frame_buffer:
  "extract_frame rt nm now parsed (xs\<lparr>buffer := b\<rparr>) =
     map_sum id (\<lambda>xs'. xs'\<lparr>buffer := b\<rparr>) (extract_frame rt nm now parsed xs)"
  by (simp add: extract_frame_def Let_def)

lemma extract_chunks_buffer:
  "extract_chunks rt nm now (xs\<lparr>buffer := b\<rparr>) cs =
     map_sum id (\<lambda>xs'. xs'\<lparr>buffer := b\<rparr>) (extract_chunks rt nm now xs cs)"
proof (induction cs arbitrary: xs)
  case Nil
  then show ?case by simp
next
  case (Cons c cs)
  show ?case
  proof (cases "parsed_chunk rt c")
    case None
    then show ?thesis using Cons.IH by simp
  next
    case (Some parsed)
    show ?thesis
    proof (cases "extract_frame rt nm now parsed xs")
      case (Inl e)
      then show ?thesis using Some by (simp add: extract_frame_buffer)
    next
      case (Inr xs')
      then show ?thesis using Some Cons.IH[of xs'] by (simp add: extract_frame_buffer)
    qed
  qed
qed

lemma extract_loop_concat:
  assumes "js_split [NL, NL] (buffer xs) = [buffer xs]"
  shows "extract_loop rt nm now xs texts =
     map_sum id (\<lambda>xs'. xs'\<lparr>buffer := last (js_split [NL, NL] (buffer xs @ concat texts))\<rparr>)
       (extract_chunks rt nm now xs (butlast (js_split [NL, NL] (buffer xs @ concat texts))))"
  using assms
proof (induction texts arbitrary: xs)
  case Nil
  then show ?case by simp
next
  case (Cons t ts)
  let ?S = "js_split [NL, NL] (buffer xs @ t)"
  let ?T = "js_split [NL, NL] (last ?S @ concat ts)"
  have clean: "js_split [NL, NL] (last ?S) = [last ?S]"
    by (rule js_split_last_clean) simp
  have sp: "js_split [NL, NL] (buffer xs @ concat (t # ts)) = butlast ?S @ ?T"
    using js_split_append[of "[NL, NL]" "buffer xs @ t" "concat ts"] by simp
  have bl: "butlast (butlast ?S @ ?T) = butlast ?S @ butlast ?T" "last (butlast ?S @ ?T) = last ?T"
    by (simp_all add: js_split_nonempty butlast_append_nonempty)
  show ?case
  proof (cases "extract_chunks rt nm now xs (butlast ?S)")
    case (Inl e)
    then show ?thesis unfolding sp bl
      by (simp add: read_chunks_eq extract_chunks_buffer extract_chunks_append)
  next
    case (Inr xs')
    have b: "buffer (xs'\<lparr>buffer := last ?S\<rparr>) = last ?S" by simp
    have "js_split [NL, NL] (buffer (xs'\<lparr>buffer := last ?S\<rparr>)) = [buffer (xs'\<lparr>buffer := last ?S\<rparr>)]"
      using clean by simp
    from Cons.IH[OF this] Inr show ?thesis unfolding sp bl b
      by (simp add: read_chunks_eq extract_chunks_buffer extract_chunks_append)
         (cases "extract_chunks rt nm now xs' (butlast ?T)"; simp)
  qed
qed

lemma extractStyleWithStream_concat:
  "extractStyleWithStream rt nm now texts = extractStyleWithStream rt nm now [concat texts]"
proof -
  let ?i = "\<lparr>buffer = [], createdStyle = None, calls = []\<rparr>"
  have c: "js_split [NL, NL] (buffer ?i) = [buffer ?i]" by simp
  have "extract_loop rt nm now ?i texts = extract_loop rt nm now ?i [concat texts]"
    unfolding extract_loop_concat[OF c, of rt nm now texts]
      extract_loop_concat[OF c, of rt nm now "[concat texts]"] by simp
  then show ?thesis by (simp add: extractStyleWithStream_def)
qed

subsection \<open>Blocks on the wire\<close>

lemma js_split_no_newline: "NL \<notin> set s \<Longrightarrow> js_split (NL # sep) s = [s]"
  by (induction s) auto

lemma js_split_block:
  "NL \<notin> set x \<Longrightarrow> js_split [NL, NL] (x @ NL # NL # rest) = x # js_split [NL, NL] rest"
  by (induction x) auto

lemma js_split_terminated:
  "\<forall>x \<in> set xs. NL \<notin> set x \<Longrightarrow>
   js_split [NL, NL] (concat (map (\<lambda>x. x @ [NL, NL]) xs)) = xs @ [[]]"
proof (induction xs)
  case Nil
  then show ?case by simp
next
  case (Cons x xs)
  then have "NL \<notin> set x" by simp
  from js_split_block[OF this, of "concat (map (\<lambda>x. x @ [NL, NL]) xs)"] Cons
  show ?case by simp
qed

lemma js_split_blocks:
  assumes "\<forall>body \<in> set bodies. NL \<notin> set body"
  shows "js_split [NL, NL] (concat (map sse_block bodies)) =
    map (\<lambda>body. ''data: '' @ body) bodies @ [[]]"
proof -
  have "\<forall>x \<in> set (map (\<lambda>body. ''data: '' @ body) bodies). NL \<notin> set x"
    using assms by (auto simp: NL_def)
  moreover have "sse_block = (\<lambda>body. (''data: '' @ body) @ [NL, NL])"
    by (rule ext) (simp add: sse_block_def)
  ultimately show ?thesis
    using js_split_terminated[of "map (\<lambda>body. ''data: '' @ body) bodies"]
    by (simp add: comp_def)
qed

lemma parsed_chunk_data_line:
  assumes "NL \<notin> set body" and "truthy (parseSseJson rt body)"
  shows "parsed_chunk rt (''data: '' @ body) = Some (parseSseJson rt body)"
proof -
  have "NL \<notin> set (''data: '' @ body)" using assms(1) by (simp add: NL_def)
  then have "js_split [NL] (''data: '' @ body) = [''data: '' @ body]"
    by (rule js_split_no_newline)
  then show ?thesis using assms(2) by (simp add: parsed_chunk_def)
qed

lemma map_filter_data_lines:
  "\<forall>body \<in> set bodies. NL \<notin> set body \<and> truthy (parseSseJson rt body) \<Longrightarrow>
   List.map_filter (parsed_chunk rt) (map (\<lambda>body. ''data: '' @ body) bodies) =
     map (parseSseJson rt) bodies"
proof (induction bodies)
  case Nil
  then show ?case by (simp add: List.map_filter_def)
next
  case (Cons b bs)
  then have "parsed_chunk rt (''data: '' @ b) = Some (parseSseJson rt b)"
    by (intro parsed_chunk_data_line) simp_all
  then show ?case using Cons by (simp add: List.map_filter_def)
qed

lemma js_split_one_newline:
  "NL \<notin> set x \<Longrightarrow> js_split [NL, NL] (x @ [NL]) = [x @ [NL]]"
  by (induction x) auto

lemma js_split_partial_block:
  assumes "NL \<notin> set x" and "first @ second = x @ [NL, NL]" and "second \<noteq> []"
  shows "js_split [NL, NL] first = [first]"
proof -
  obtain s2 where s2: "second = s2 @ [NL]" "first @ s2 = x @ [NL]"
  proof -
    from assms(3) have "second = butlast second @ [last second]" by simp
    with assms(2) have "(first @ butlast second) @ [last second] = (x @ [NL]) @ [NL]"
      by (metis append_assoc append_Cons append_Nil)
    then have "first @ butlast second = x @ [NL]" "last second = NL" by simp_all
    with \<open>second = butlast second @ [last second]\<close> that show thesis by metis
  qed
  show ?thesis
  proof (cases "s2 = []")
    case True
    with s2(2) assms(1) show ?thesis by (simp add: js_split_one_newline)
  next
    case False
    then have "s2 = butlast s2 @ [last s2]" by simp
    with s2(2) have "(first @ butlast s2) @ [last s2] = x @ [NL]"
      by (metis append_assoc)
    then have "first @ butlast s2 = x" by simp
    with assms(1) have "NL \<notin> set first" by auto
    then show ?thesis by (rule js_split_no_newline)
  qed
qed

lemma extractStyleWithStream_eq:
  "extractStyleWithStream rt nm now texts =
   (case extract_chunks rt nm now \<lparr>buffer = [], createdStyle = None, calls = []\<rparr>
          (butlast (js_split [NL, NL] (concat texts))) of
      Inl (message, invoked) \<Rightarrow> (invoked, Threw message)
    | Inr xs \<Rightarrow> (calls xs, case createdStyle xs of None \<Rightarrow> Threw extract_no_result_message
        | Some created \<Rightarrow> Returned created))"
proof -
  let ?i = "\<lparr>buffer = [], createdStyle = None, calls = []\<rparr>"
  have c: "js_split [NL, NL] (buffer ?i) = [buffer ?i]" by simp
  show ?thesis
    unfolding extractStyleWithStream_def extract_loop_concat[OF c, of rt nm now texts]
    by (cases "extract_chunks rt nm now ?i (butlast (js_split [NL, NL] (concat texts)))") simp_all
qed

lemma extractStyleWithStream_outcome:
  "extractStyleWithStream rt nm now texts =
     extract_outcome (extract_chunks rt nm now \<lparr>buffer = [], createdStyle = None, calls = []\<rparr>
       (butlast (js_split [NL, NL] (concat texts))))"
  by (simp add: extractStyleWithStream_eq extract_outcome_def)

lemma extract_chunks_data_lines:
  "\<forall>body \<in> set bodies. NL \<notin> set body \<and> truthy (parseSseJson rt body) \<Longrightarrow>
   extract_chunks rt nm now xs (map (\<lambda>body. ''data: '' @ body) bodies) =
     extract_frames rt nm now xs (map (parseSseJson rt) bodies)"
proof (induction bodies arbitrary: xs)
  case Nil
  then show ?case by simp
next
  case (Cons b bs)
  then have p: "parsed_chunk rt (''data: '' @ b) = Some (parseSseJson rt b)"
    by (intro parsed_chunk_data_line) simp_all
  have ih: "extract_chunks rt nm now xs' (map (\<lambda>body. ''data: '' @ body) bs) =
      extract_frames rt nm now xs' (map (parseSseJson rt) bs)" for xs'
    using Cons by simp
  have "extract_chunks rt nm now xs ((''data: '' @ b) # map (\<lambda>body. ''data: '' @ body) bs) =
      extract_frames rt nm now xs (parseSseJson rt b # map (parseSseJson rt) bs)"
    by (simp only: extract_chunks.simps extract_frames.simps p option.case ih)
  then show ?case by simp
qed

text \<open>
  C3. Both read loops decode the same frames, in the same order, whether the texts of
  the reads arrive one by one or as one concatenated text: the events collected by
  \<^verbatim>\<open>runFullWorkflow\<close> are the same, and so are the callbacks invoked by
  \<^verbatim>\<open>extractStyleWithStream\<close> and its result. When the concatenation consists of N blocks
  (a \<^verbatim>\<open>data: \<close> line whose body holds no line break and parses to a truthy value, then
  a blank line), the frames decoded are the N parsed bodies in order, however the text
  was cut into reads: \<^verbatim>\<open>runFullWorkflow\<close> collects exactly these N frames, and
  \<^verbatim>\<open>extractStyleWithStream\<close> dispatches exactly these N frames, in order, and ends as that
  dispatch ends. When one block is cut in two parts, the second not empty, the first
  part alone yields no frame (\<^verbatim>\<open>extractStyleWithStream\<close> invokes no callback and has no
  result) and both parts yield the block's frame.
\<close>

theorem framing_idempotence:
  "runFullWorkflow_events rt texts = runFullWorkflow_events rt [concat texts] \<and>
   extractStyleWithStream rt request_name now texts =
     extractStyleWithStream rt request_name now [concat texts] \<and>
   ((\<forall>body \<in> set bodies. NL \<notin> set body \<and> truthy (parseSseJson rt body)) \<and>
    concat texts = concat (map sse_block bodies) \<longrightarrow>
      runFullWorkflow_events rt texts = map (parseSseJson rt) bodies \<and>
      extractStyleWithStream rt request_name now texts =
        extract_outcome (extract_frames rt request_name now
          \<lparr>buffer = [], createdStyle = None, calls = []\<rparr> (map (parseSseJson rt) bodies))) \<and>
   (NL \<notin> set body \<and> truthy (parseSseJson rt body) \<and>
    first @ second = sse_block body \<and> second \<noteq> [] \<longrightarrow>
      runFullWorkflow_events rt [first] = [] \<and>
      runFullWorkflow_events rt [first, second] = [parseSseJson rt body] \<and>
      extractStyleWithStream rt request_name now [first] = ([], Threw extract_no_result_message) \<and>
      extractStyleWithStream rt request_name now [first, second] =
        extract_outcome (extract_frame rt request_name now (parseSseJson rt body)
          \<lparr>buffer = [], createdStyle = None, calls = []\<rparr>))"
proof -
  let ?i = "\<lparr>buffer = [], createdStyle = None, calls = []\<rparr>"
  have a: "runFullWorkflow_events rt texts = runFullWorkflow_events rt [concat texts]"
    by (simp add: runFullWorkflow_events_eq)
  have b: "runFullWorkflow_events rt texts = map (parseSseJson rt) bodies"
    if "\<forall>body \<in> set bodies. NL \<notin> set body \<and> truthy (parseSseJson rt body)"
      and "concat texts = concat (map sse_block bodies)" for bodies texts
  proof -
    from that(1) have "\<forall>body \<in> set bodies. NL \<notin> set body" by blast
    from js_split_blocks[OF this] that(2) map_filter_data_lines[OF that(1)]
    show ?thesis by (simp add: runFullWorkflow_events_eq)
  qed
  have x: "extractStyleWithStream rt request_name now texts =
      extract_outcome (extract_frames rt request_name now ?i (map (parseSseJson rt) bodies))"
    if "\<forall>body \<in> set bodies. NL \<notin> set body \<and> truthy (parseSseJson rt body)"
      and "concat texts = concat (map sse_block bodies)" for bodies texts
  proof -
    from that(1) have "\<forall>body \<in> set bodies. NL \<notin> set body" by blast
    from js_split_blocks[OF this] that(2)
    have "butlast (js_split [NL, NL] (concat texts)) = map (\<lambda>body. ''data: '' @ body) bodies"
      by simp
    then show ?thesis
      unfolding extractStyleWithStream_outcome
      by (simp only: extract_chunks_data_lines[OF that(1)])
  qed
  have c: "runFullWorkflow_events rt [first] = [] \<and>
      runFullWorkflow_events rt [first, second] = [parseSseJson rt body] \<and>
      extractStyleWithStream rt request_name now [first] = ([], Threw extract_no_result_message) \<and>
      extractStyleWithStream rt request_name now [first, second] =
        extract_outcome (extract_frame rt request_name now (parseSseJson rt body) ?i)"
    if "NL \<notin> set body" "truthy (parseSseJson rt body)" "first @ second = sse_block body"
      "second \<noteq> []"
  proof -
    have n: "NL \<notin> set (''data: '' @ body)" using that(1) by (simp add: NL_def)
    have "first @ second = (''data: '' @ body) @ [NL, NL]"
      using that(3) by (simp add: sse_block_def)
    note single = js_split_partial_block[OF n this that(4)]
    have c1: "runFullWorkflow_events rt [first] = []"
      using single by (simp add: runFullWorkflow_events_eq List.map_filter_def)
    have c3: "extractStyleWithStream rt request_name now [first] =
        ([], Threw extract_no_result_message)"
      using single by (simp add: extractStyleWithStream_outcome extract_outcome_def)
    have w: "\<forall>b \<in> set [body]. NL \<notin> set b \<and> truthy (parseSseJson rt b)"
      using that(1,2) by simp
    have cc: "concat [first, second] = concat (map sse_block [body])"
      using that(3) by simp
    have c2: "runFullWorkflow_events rt [first, second] = map (parseSseJson rt) [body]"
      using w cc by (rule b)
    have "extractStyleWithStream rt request_name now [first, second] =
        extract_outcome (extract_frames rt request_name now ?i (map (parseSseJson rt) [body]))"
      using w cc by (rule x)
    then have c4: "extractStyleWithStream rt request_name now [first, second] =
        extract_outcome (extract_frame rt request_name now (parseSseJson rt body) ?i)"
      by (cases "extract_frame rt request_name now (parseSseJson rt body) ?i") simp_all
    from c1 c2 c3 c4 show ?thesis by simp
  qed
  from a b x c extractStyleWithStream_concat[of rt request_name now texts]
  show ?thesis by blast
qed

text \<open>
  An instance: two blocks that arrive in three reads, cut inside a line break and inside a
  body; and one block cut before its last line break.
\<close>

theorem framing_idempotence_witness:
  "runFullWorkflow_events demo_runtime
      [''data: '' @ wire_hello @ [NL], NL # ''data: '' @ take 9 wire_world,
       drop 9 wire_world @ [NL, NL]] =
     [JObj [(''type'', JStr ''content''), (''delta'', JStr ''Hello'')],
      JObj [(''type'', JStr ''content''), (''delta'', JStr '', World!'')]] \<and>
   runFullWorkflow_events demo_runtime [''data: '' @ wire_x @ [NL]] = [] \<and>
   runFullWorkflow_events demo_runtime [''data: '' @ wire_x @ [NL], [NL]] =
     [JObj [(''type'', JStr ''content''), (''delta'', JStr ''x'')]] \<and>
   extractStyleWithStream demo_runtime ''s'' ''now''
      [''data: '' @ wire_hello @ [NL], NL # ''data: '' @ take 9 wire_world,
       drop 9 wire_world @ [NL, NL]] =
     ([StyleOnChunk ''Hello'', StyleOnChunk '', World!''], Threw extract_no_result_message) \<and>
   extractStyleWithStream demo_runtime ''s'' ''now'' [''data: '' @ wire_x @ [NL]] =
     ([], Threw extract_no_result_message) \<and>
   extractStyleWithStream demo_runtime ''s'' ''now'' [''data: '' @ wire_x @ [NL], [NL]] =
     ([StyleOnChunk ''x''], Threw extract_no_result_message)"
proof -
  let ?texts = "[''data: '' @ wire_hello @ [NL], NL # ''data: '' @ take 9 wire_world,
       drop 9 wire_world @ [NL, NL]]"
  let ?i = "\<lparr>buffer = [], createdStyle = None, calls = []\<rparr>"
  have h1: "\<forall>body \<in> set [wire_hello, wire_world].
      NL \<notin> set body \<and> truthy (parseSseJson demo_runtime body)"
    by (simp add: demo_frames) (simp add: wire_defs NL_def)
  have "take 9 wire_world @ drop 9 wire_world = wire_world" by (rule append_take_drop_id)
  then have h2: "concat ?texts = concat (map sse_block [wire_hello, wire_world])"
    by (simp add: sse_block_def)
  have h3: "NL \<notin> set wire_x" "truthy (parseSseJson demo_runtime wire_x)"
    "(''data: '' @ wire_x @ [NL]) @ [NL] = sse_block wire_x" "[NL] \<noteq> []"
    by (simp_all add: demo_frames sse_block_def) (simp add: wire_defs NL_def)
  note t = framing_idempotence[where rt = demo_runtime and texts = ?texts
      and bodies = "[wire_hello, wire_world]" and body = wire_x
      and first = "''data: '' @ wire_x @ [NL]" and second = "[NL]"
      and request_name = "''s''" and now = "''now''"]
  have a: "runFullWorkflow_events demo_runtime ?texts =
      map (parseSseJson demo_runtime) [wire_hello, wire_world]"
    using t h1 h2 by blast
  have b: "runFullWorkflow_events demo_runtime [''data: '' @ wire_x @ [NL]] = []"
    "runFullWorkflow_events demo_runtime [''data: '' @ wire_x @ [NL], [NL]] =
      [parseSseJson demo_runtime wire_x]"
    using t h3 by blast+
  have c: "extractStyleWithStream demo_runtime ''s'' ''now'' ?texts =
      extract_outcome (extract_frames demo_runtime ''s'' ''now'' ?i
        (map (parseSseJson demo_runtime) [wire_hello, wire_world]))"
    using t h1 h2 by blast
  have d: "extractStyleWithStream demo_runtime ''s'' ''now'' [''data: '' @ wire_x @ [NL]] =
      ([], Threw extract_no_result_message)"
    "extractStyleWithStream demo_runtime ''s'' ''now'' [''data: '' @ wire_x @ [NL], [NL]] =
      extract_outcome (extract_frame demo_runtime ''s'' ''now'' (parseSseJson demo_runtime wire_x) ?i)"
    using t h3 by blast+
  have e: "extract_outcome (extract_frames demo_runtime ''s'' ''now'' ?i
        (map (parseSseJson demo_runtime) [wire_hello, wire_world])) =
      ([StyleOnChunk ''Hello'', StyleOnChunk '', World!''], Threw extract_no_result_message)"
    "extract_outcome (extract_frame demo_runtime ''s'' ''now'' (parseSseJson demo_runtime wire_x) ?i) =
      ([StyleOnChunk ''x''], Threw extract_no_result_message)"
    by (simp_all add: extract_outcome_def extract_frame_def demo_frames or_else_def js_String_def)
  show ?thesis unfolding a b c d e by (simp add: demo_frames)
qed

section \<open>Frames after the end, and a result without id\<close>

lemma NL_wire:
  "NL \<notin> set wire_start_noid" "NL \<notin> set wire_x" "NL \<notin> set wire_done_noid"
  "NL \<notin> set wire_error" "NL \<notin> set wire_mystery" "NL \<notin> set wire_start42"
  "NL \<notin> set wire_hello" "NL \<notin> set wire_world" "NL \<notin> set wire_done"
  by (simp_all add: wire_defs NL_def)

lemma demo_truthy:
  "truthy (parseSseJson demo_runtime wire_start_noid)" "truthy (parseSseJson demo_runtime wire_x)"
  "truthy (parseSseJson demo_runtime wire_done_noid)" "truthy (parseSseJson demo_runtime wire_error)"
  by (simp_all add: demo_frames)

lemma js_split_blocks1:
  "NL \<notin> set a \<Longrightarrow> butlast (js_split [NL, NL] (sse_block a)) = [''data: '' @ a]"
  using js_split_blocks[of "[a]"] by simp

lemma js_split_blocks2:
  "NL \<notin> set a \<Longrightarrow> NL \<notin> set b \<Longrightarrow>
   butlast (js_split [NL, NL] (sse_block a @ sse_block b)) = [''data: '' @ a, ''data: '' @ b]"
  using js_split_blocks[of "[a, b]"] by simp

lemma js_split_blocks3:
  "NL \<notin> set a \<Longrightarrow> NL \<notin> set b \<Longrightarrow> NL \<notin> set c \<Longrightarrow>
   butlast (js_split [NL, NL] (sse_block a @ sse_block b @ sse_block c)) =
     [''data: '' @ a, ''data: '' @ b, ''data: '' @ c]"
  using js_split_blocks[of "[a, b, c]"] by simp

lemma demo_extract_frames:
  "extract_frame demo_runtime nm now (parseSseJson demo_runtime wire_start_noid) xs =
     Inr (xs\<lparr>calls := calls xs @ [StyleOnStart (JObj [(''type'', JStr ''start'')])]\<rparr>)"
  "extract_frame demo_runtime nm now (parseSseJson demo_runtime wire_x) xs =
     Inr (xs\<lparr>calls := calls xs @ [StyleOnChunk ''x'']\<rparr>)"
  "extract_frame demo_runtime nm now (parseSseJson demo_runtime wire_done_noid) xs =
     Inr (xs\<lparr>createdStyle := Some \<lparr>style_id = Some 0, style_name = nm, style_description = [],
       style_tags = None, style_created_at = now\<rparr>\<rparr>)"
  "extract_frame demo_runtime nm now (parseSseJson demo_runtime wire_error) xs =
     Inl (''boom'', calls xs)"
  by (simp_all add: extract_frame_def demo_frames or_else_def js_String_def js_Number_def)

lemma parsed_chunk_data_line_cons:
  "NL \<notin> set body \<Longrightarrow> truthy (parseSseJson rt body) \<Longrightarrow>
   parsed_chunk rt (CHR ''d'' # CHR ''a'' # CHR ''t'' # CHR ''a'' # CHR '':'' # CHR '' '' # body) =
     Some (parseSseJson rt body)"
  using parsed_chunk_data_line[of body rt] by simp

text \<open>
  C1 fails in \<^verbatim>\<open>extractStyleWithStream\<close>. Its loop does not stop at a \<^verbatim>\<open>done\<close> frame:
  with a \<^verbatim>\<open>content\<close> frame after the \<^verbatim>\<open>done\<close> frame \<^verbatim>\<open>onChunk\<close> is invoked for it, and
  with an \<^verbatim>\<open>error\<close> frame after the \<^verbatim>\<open>done\<close> frame the call that had its result throws.
\<close>

theorem extract_dispatches_after_done:
  "extractStyleWithStream demo_runtime ''s'' ''now'' [sse_block wire_done_noid] =
     ([], Returned \<lparr>style_id = Some 0, style_name = ''s'', style_description = [],
       style_tags = None, style_created_at = ''now''\<rparr>) \<and>
   extractStyleWithStream demo_runtime ''s'' ''now'' [sse_block wire_done_noid, sse_block wire_x] =
     ([StyleOnChunk ''x''], Returned \<lparr>style_id = Some 0, style_name = ''s'',
       style_description = [], style_tags = None, style_created_at = ''now''\<rparr>) \<and>
   extractStyleWithStream demo_runtime ''s'' ''now'' [sse_block wire_done_noid, sse_block wire_error] =
     ([], Threw ''boom'')"
  by (simp add: extractStyleWithStream_eq js_split_blocks1 js_split_blocks2 NL_wire
      parsed_chunk_data_line_cons demo_truthy demo_extract_frames)

text \<open>
  C2 fails in \<^verbatim>\<open>extractStyleWithStream\<close>. With a \<^verbatim>\<open>start\<close> frame, a \<^verbatim>\<open>content\<close> frame
  and a \<^verbatim>\<open>done\<close> frame that carry no id, the call returns a style whose id is 0.
\<close>

theorem extract_returns_without_id:
  "property (parseSseJson demo_runtime wire_start_noid) ''id'' = None \<and>
   property (parseSseJson demo_runtime wire_done_noid) ''id'' = None \<and>
   extractStyleWithStream demo_runtime ''s'' ''now''
      [sse_block wire_start_noid, sse_block wire_x, sse_block wire_done_noid] =
     ([StyleOnStart (JObj [(''type'', JStr ''start'')]), StyleOnChunk ''x''],
      Returned \<lparr>style_id = Some 0, style_name = ''s'', style_description = [],
        style_tags = None, style_created_at = ''now''\<rparr>)"
proof -
  have "extractStyleWithStream demo_runtime ''s'' ''now''
      [sse_block wire_start_noid, sse_block wire_x, sse_block wire_done_noid] =
     ([StyleOnStart (JObj [(''type'', JStr ''start'')]), StyleOnChunk ''x''],
      Returned \<lparr>style_id = Some 0, style_name = ''s'', style_description = [],
        style_tags = None, style_created_at = ''now''\<rparr>)"
    by (simp add: extractStyleWithStream_eq js_split_blocks3 NL_wire
        parsed_chunk_data_line_cons demo_truthy demo_extract_frames)
  then show ?thesis by (simp add: demo_frames)
qed

subsection \<open>The paths that stop at the end and check the id\<close>

text \<open>
  The push transport does what C1 says: a \<^verbatim>\<open>done\<close> or \<^verbatim>\<open>error\<close> frame handled by an open
  session closes the connection, and a closed connection invokes no callback, whatever
  is sent afterwards. In \<^verbatim>\<open>extractStyleWithStream\<close> an \<^verbatim>\<open>error\<close> frame ends the loop.
\<close>

lemma property_truthy: "property v k = Some x \<Longrightarrow> truthy v"
  by (cases v) simp_all

lemma terminal_frame_closes:
  assumes "property (parseSseJson rt raw) ''type'' = Some (JStr ''done'') \<or>
    property (parseSseJson rt raw) ''type'' = Some (JStr ''error'')"
  shows "es_closed (step st rt s (Message raw))"
proof -
  have t: "truthy (parseSseJson rt raw)"
    using assms property_truthy by blast
  have "es_closed s \<or> (\<exists>as. onmessage_of st rt raw = as @ [Close])"
    using assms t
    by (cases st) (auto simp: onmessage_of_simps stream_onmessage_def
        coverWithStream_onmessage_def Let_def)
  then show ?thesis by (auto simp: step_Message)
qed

lemma closed_session_silent:
  "es_closed s \<Longrightarrow> dispatched (onmessage_of st) rt (es_closed s) ev = []"
  by (simp add: dispatched_def)

lemma extract_error_ends_loop:
  assumes "parsed_chunk rt chunk = Some parsed"
    and "js_String rt (or_else (property parsed ''type'') (JStr [])) = ''error''"
  shows "\<exists>message. extract_chunks rt nm now xs (chunk # chunks) = Inl (message, calls xs)"
  using assms by (simp add: extract_frame_def)

text \<open>
  The three starters do what C2 says: with no id in the \<^verbatim>\<open>start\<close> frame (for
  \<^verbatim>\<open>startCover\<close>: in the \<^verbatim>\<open>done\<close> frame), any number of \<^verbatim>\<open>content\<close> frames and a
  \<^verbatim>\<open>done\<close> frame, the promise is rejected with the starter's missing-id message and no
  fetch is issued.
\<close>

lemma content_frames_ignored:
  assumes "\<forall>raw \<in> set raws. property (parseSseJson rt raw) ''type'' = Some (JStr ''content'')"
  shows "run st rt s (map Message raws) = s"
  using assms
proof (induction raws)
  case Nil
  then show ?case by (simp add: run_def)
next
  case (Cons raw raws)
  then have ty: "property (parseSseJson rt raw) ''type'' = Some (JStr ''content'')" by simp
  then have "truthy (parseSseJson rt raw)"
    by (rule property_truthy)
  with ty have "(\<exists>c. onmessage_of st rt raw = [OnChunk c]) \<or>
      (\<exists>d. onmessage_of st rt raw = [OnProgress d])"
    by (cases st) (auto simp: onmessage_of_simps stream_onmessage_def
        coverWithStream_onmessage_def Let_def)
  then have "step st rt s (Message raw) = s"
    by (auto simp: step_Message)
  with Cons show ?case by (simp add: run_Cons)
qed

lemma starters_reject_missing_id:
  assumes "property (parseSseJson rt start) ''type'' = Some (JStr ''start'')"
    and "property (parseSseJson rt start) ''task_id'' = None"
    and "property (parseSseJson rt start) ''review_id'' = None"
    and "\<forall>raw \<in> set raws. property (parseSseJson rt raw) ''type'' = Some (JStr ''content'')"
    and "property (parseSseJson rt done) ''type'' = Some (JStr ''done'')"
    and "property (parseSseJson rt done) ''id'' = None"
  shows "run st rt (init_session :: ('e, 'r) session)
      (Message start # map Message raws @ [Message done]) =
    \<lparr>es_closed = True, taskId = None, settled = True,
     completion = Rejected (Error (missing_id_message st)), fetches = []\<rparr>"
proof -
  have ts: "truthy (parseSseJson rt start)" "truthy (parseSseJson rt done)"
    using assms(1,5) property_truthy by blast+
  have "onmessage_of st rt start = [] \<or> (\<exists>d. onmessage_of st rt start = [OnProgress d])"
    using assms(1-3) ts
    by (cases st) (auto simp: onmessage_of_simps stream_onmessage_def
        coverWithStream_onmessage_def Let_def or_else_def js_Number_def)
  then have s1: "step st rt (init_session :: ('e, 'r) session) (Message start) = init_session"
    by (auto simp: step_Message)
  have "onmessage_of st rt done = [OnDone (parseSseJson rt done), Close] \<or>
      onmessage_of st rt done =
        [OnProgress (parseSseJson rt done), OnDone (parseSseJson rt done), Close]"
    using assms(5) ts
    by (cases st) (auto simp: onmessage_of_simps stream_onmessage_def
        coverWithStream_onmessage_def Let_def)
  then have s2: "step st rt (init_session :: ('e, 'r) session) (Message done) =
      \<lparr>es_closed = True, taskId = None, settled = True,
       completion = Rejected (Error (missing_id_message st)), fetches = []\<rparr>"
    using assms(6)
    by (auto simp: step_Message init_session_def text_onDone_def startCover_onDone_def
        or_else_def js_Number_def reject_def)
  show ?thesis
    using s1 s2 content_frames_ignored[OF assms(4), of st "init_session :: ('e, 'r) session"]
    by (simp add: run_Cons run_append) (simp add: run_def)
qed

section \<open>The rewrite scenario and the record fetch\<close>

lemma no_done_actions:
  assumes "property (parseSseJson rt raw) ''type'' \<noteq> Some (JStr ''done'')"
  shows "onmessage_of st rt raw = [] \<or>
   (\<exists>c. onmessage_of st rt raw = [OnChunk c]) \<or>
   (\<exists>n. onmessage_of st rt raw = [OnStart n]) \<or>
   (\<exists>d. onmessage_of st rt raw = [OnProgress d]) \<or>
   (\<exists>e. onmessage_of st rt raw = [OnError e, Close])"
  using assms
  by (cases st) (auto simp: onmessage_of_simps stream_onmessage_def coverWithStream_onmessage_def
      Let_def split: option.split json.split)

lemma reject_not_resolved: "p \<noteq> Resolved r \<Longrightarrow> reject e p \<noteq> Resolved r"
  by (cases p) (simp_all add: reject_def)

lemma apply_action_no_fetch:
  assumes "\<forall>d. a \<noteq> OnDone d"
  shows "fetches (apply_action st rt s a) = fetches s"
    and "completion s \<noteq> Resolved r \<Longrightarrow> completion (apply_action st rt s a) \<noteq> Resolved r"
  using assms by (cases a; simp add: starter_onError_def reject_not_resolved)+

lemma no_fetch_step:
  assumes "fetches s = []" and "\<forall>r. completion s \<noteq> Resolved r"
    and "\<forall>raw. ev = Message raw \<longrightarrow>
      property (parseSseJson rt raw) ''type'' \<noteq> Some (JStr ''done'')"
  shows "fetches (step st rt s ev) = [] \<and> (\<forall>r. completion (step st rt s ev) \<noteq> Resolved r)"
proof (cases ev)
  case (Message raw)
  with assms(3) have "property (parseSseJson rt raw) ''type'' \<noteq> Some (JStr ''done'')" by simp
  from no_done_actions[OF this, of st] assms(1,2) Message show ?thesis
    by (auto simp: step_Message apply_action_no_fetch simp del: apply_action.simps)
next
  case ConnectionError
  with assms(1,2) show ?thesis
    by (simp add: step_ConnectionError starter_onError_def reject_not_resolved)
next
  case CloseCall
  with assms(1,2) show ?thesis by (simp add: step_CloseCall)
next
  case (FetchReturns i res)
  with assms(1,2) show ?thesis by (simp add: step_FetchReturns fetch_returns_def)
qed

lemma no_fetch_without_done:
  assumes "fetches s = []" and "\<forall>r. completion s \<noteq> Resolved r"
    and "\<forall>raw. Message raw \<in> set evs \<longrightarrow>
      property (parseSseJson rt raw) ''type'' \<noteq> Some (JStr ''done'')"
  shows "fetches (run st rt s evs) = [] \<and> (\<forall>r. completion (run st rt s evs) \<noteq> Resolved r)"
  using assms
proof (induction evs arbitrary: s)
  case Nil
  then show ?case by (simp add: run_def)
next
  case (Cons ev evs)
  have "fetches (step st rt s ev) = [] \<and> (\<forall>r. completion (step st rt s ev) \<noteq> Resolved r)"
    using Cons.prems by (intro no_fetch_step) auto
  then show ?case using Cons.IH[of "step st rt s ev"] Cons.prems(3) by (simp add: run_Cons)
qed

lemma no_fetch_after_failure:
  assumes "sound s" and "\<not> es_closed s"
    and "ev = CloseCall \<or> ev = ConnectionError \<or>
      (\<exists>raw. ev = Message raw \<and> property (parseSseJson rt raw) ''type'' = Some (JStr ''error''))"
  shows "fetches (run st rt (step st rt s ev) later) = [] \<and>
    (\<forall>r. completion (run st rt (step st rt s ev) later) \<noteq> Resolved r)"
proof -
  have o: "completion s = Pending" "fetches s = []"
    using not_closed_pending[OF assms(1,2)] by simp_all
  have n: "\<forall>raw. ev = Message raw \<longrightarrow>
      property (parseSseJson rt raw) ''type'' \<noteq> Some (JStr ''done'')"
    using assms(3) by auto
  have f: "fetches (step st rt s ev) = []" "\<forall>r. completion (step st rt s ev) \<noteq> Resolved r"
    using no_fetch_step[OF o(2) _ n, of st] o(1) by simp_all
  have c: "es_closed (step st rt s ev)"
    using assms(2,3) terminal_frame_closes[of rt _ st s]
    by (auto simp: step_CloseCall step_ConnectionError)
  from run_closed[OF c f(1)] f show ?thesis by simp
qed

text \<open>
  C4, as the code has it. For the frames \<^verbatim>\<open>start{task_id:42}\<close>,
  \<^verbatim>\<open>content{delta:"Hello"}\<close>, \<^verbatim>\<open>content{delta:", World!"}\<close>,
  \<^verbatim>\<open>done{final_content:"Hello, World!", actual_words:2}\<close>: \<^verbatim>\<open>startRewrite\<close> captures the
  id 42, leaves the content frames to its caller (they do not change the session), and
  at \<^verbatim>\<open>done\<close> issues the fetch of record 42; when the fetch returns a record, the promise
  is resolved with it. The rewrite page started with \<^verbatim>\<open>hello world\<close> and style 1
  accumulates the deltas to \<^verbatim>\<open>Hello, World!\<close> and at \<^verbatim>\<open>done\<close> shows the final content with
  the word count 2; it captures no id. For every starter the fetch is issued only by a
  \<^verbatim>\<open>done\<close> frame: a session that was sent no \<^verbatim>\<open>done\<close> frame has issued no fetch and is not
  resolved, and once an open session has handled an \<^verbatim>\<open>error\<close> frame or a connection
  error, or was closed by a call of \<^verbatim>\<open>close()\<close>, it never issues a fetch and is never
  resolved, whatever is sent afterwards.
\<close>

theorem rewrite_end_to_end:
  assumes "parseSseJson rt w1 = JObj [(''type'', JStr ''start''), (''task_id'', JNum 42)]"
    and "parseSseJson rt w2 = JObj [(''type'', JStr ''content''), (''delta'', JStr ''Hello'')]"
    and "parseSseJson rt w3 = JObj [(''type'', JStr ''content''), (''delta'', JStr '', World!'')]"
    and "parseSseJson rt w4 = JObj [(''type'', JStr ''done''),
      (''final_content'', JStr ''Hello, World!''), (''actual_words'', JNum 2)]"
  shows "run StartRewrite rt (init_session :: ('e, 'r) session)
        [Message w1, Message w2, Message w3, Message w4] =
      \<lparr>es_closed = True, taskId = Some 42, settled = False, completion = Pending,
       fetches = [42]\<rparr> \<and>
    run StartRewrite rt (init_session :: ('e, 'r) session)
        [Message w1, Message w2, Message w3, Message w4, FetchReturns 42 (Inr fetched)] =
      \<lparr>es_closed = True, taskId = Some 42, settled = True, completion = Resolved fetched,
       fetches = []\<rparr> \<and>
    run StartRewrite rt (init_session :: ('e, 'r) session) [Message w1, Message w2, Message w3] =
      run StartRewrite rt init_session [Message w1] \<and>
    page_run rt cw init_page
        [HandleRewrite ''hello world'' (Some 1), SourceMessage 0 w1, SourceMessage 0 w2,
         SourceMessage 0 w3] =
      \<lparr>sources = [False], eventSourceRef = Some 0, isLoading = True,
       rewrittenContent = ''Hello, World!'', resultWordCount = cw ''Hello, World!''\<rparr> \<and>
    page_run rt cw init_page
        [HandleRewrite ''hello world'' (Some 1), SourceMessage 0 w1, SourceMessage 0 w2,
         SourceMessage 0 w3, SourceMessage 0 w4] =
      \<lparr>sources = [True], eventSourceRef = Some 0, isLoading = False,
       rewrittenContent = ''Hello, World!'', resultWordCount = 2\<rparr> \<and>
    ((\<forall>raw. Message raw \<in> set evs \<longrightarrow>
        property (parseSseJson rt raw) ''type'' \<noteq> Some (JStr ''done'')) \<longrightarrow>
      fetches (run st rt (init_session :: ('e, 'r) session) evs) = [] \<and>
      (\<forall>r. completion (run st rt (init_session :: ('e, 'r) session) evs) \<noteq> Resolved r)) \<and>
    (\<not> es_closed (run st rt (init_session :: ('e, 'r) session) evs) \<and>
     (ev = CloseCall \<or> ev = ConnectionError \<or>
      (\<exists>raw. ev = Message raw \<and>
        property (parseSseJson rt raw) ''type'' = Some (JStr ''error''))) \<longrightarrow>
      fetches (run st rt (step st rt (run st rt init_session evs) ev) later) = [] \<and>
      (\<forall>r. completion (run st rt (step st rt (run st rt init_session evs) ev) later) \<noteq>
        Resolved r))"
proof -
  have acts: "stream_onmessage ''task_id'' rt w1 = [OnStart 42]"
    "stream_onmessage ''task_id'' rt w2 = [OnChunk ''Hello'']"
    "stream_onmessage ''task_id'' rt w3 = [OnChunk '', World!'']"
    "stream_onmessage ''task_id'' rt w4 = [OnDone (parseSseJson rt w4), Close]"
    by (simp_all add: stream_onmessage_def assms or_else_def js_String_def js_Number_def)
  have a: "run StartRewrite rt (init_session :: ('e, 'r) session)
        [Message w1, Message w2, Message w3, Message w4] =
      \<lparr>es_closed = True, taskId = Some 42, settled = False, completion = Pending,
       fetches = [42]\<rparr>"
    by (simp add: run_def step_Message onmessage_of_simps acts init_session_def text_onDone_def)
  have b: "run StartRewrite rt (init_session :: ('e, 'r) session)
        [Message w1, Message w2, Message w3, Message w4, FetchReturns 42 (Inr fetched)] =
      \<lparr>es_closed = True, taskId = Some 42, settled = True, completion = Resolved fetched,
       fetches = []\<rparr>"
    by (simp add: run_def step_Message step_FetchReturns onmessage_of_simps acts
        init_session_def text_onDone_def fetch_returns_def resolve_def)
  have c: "run StartRewrite rt (init_session :: ('e, 'r) session)
        [Message w1, Message w2, Message w3] = run StartRewrite rt init_session [Message w1]"
    by (simp add: run_def step_Message onmessage_of_simps acts init_session_def)
  have d: "page_run rt cw init_page
        [HandleRewrite ''hello world'' (Some 1), SourceMessage 0 w1, SourceMessage 0 w2,
         SourceMessage 0 w3] =
      \<lparr>sources = [False], eventSourceRef = Some 0, isLoading = True,
       rewrittenContent = ''Hello, World!'', resultWordCount = cw ''Hello, World!''\<rparr>"
    by (simp add: page_run_def page_step_def handleRewrite_def init_page_def close_current_def
        open_stream_def rewriteWithStream_onmessage_def acts page_onChunk_def Let_def)
  have e: "page_run rt cw init_page
        [HandleRewrite ''hello world'' (Some 1), SourceMessage 0 w1, SourceMessage 0 w2,
         SourceMessage 0 w3, SourceMessage 0 w4] =
      \<lparr>sources = [True], eventSourceRef = Some 0, isLoading = False,
       rewrittenContent = ''Hello, World!'', resultWordCount = 2\<rparr>"
    by (simp add: page_run_def page_step_def handleRewrite_def init_page_def close_current_def
        open_stream_def rewriteWithStream_onmessage_def acts page_onChunk_def page_onDone_def
        assms or_else_def js_String_def js_Number_def Let_def)
  have i: "fetches (init_session :: ('e, 'r) session) = []"
    "\<forall>r. completion (init_session :: ('e, 'r) session) \<noteq> Resolved r"
    by (simp_all add: init_session_def)
  have f: "fetches (run st rt (init_session :: ('e, 'r) session) evs) = [] \<and>
      (\<forall>r. completion (run st rt (init_session :: ('e, 'r) session) evs) \<noteq> Resolved r)"
    if "\<forall>raw. Message raw \<in> set evs \<longrightarrow>
        property (parseSseJson rt raw) ''type'' \<noteq> Some (JStr ''done'')"
    using no_fetch_without_done[OF i that] .
  have g: "fetches (run st rt (step st rt (run st rt (init_session :: ('e, 'r) session) evs) ev) later) = [] \<and>
      (\<forall>r. completion (run st rt (step st rt (run st rt (init_session :: ('e, 'r) session) evs) ev) later) \<noteq>
        Resolved r)"
    if "\<not> es_closed (run st rt (init_session :: ('e, 'r) session) evs)"
      "ev = CloseCall \<or> ev = ConnectionError \<or>
      (\<exists>raw. ev = Message raw \<and>
        property (parseSseJson rt raw) ''type'' = Some (JStr ''error''))"
    using no_fetch_after_failure[OF sound_run[OF sound_init] that] .
  from a b c d e f g show ?thesis by blast
qed

text \<open>
  An instance: the frames of the scenario, the record 7 fetched for id 42; a cover session
  that is sent no \<^verbatim>\<open>done\<close> frame; a rewrite session closed before its \<^verbatim>\<open>done\<close> frame.
\<close>

theorem rewrite_end_to_end_witness:
  "run StartRewrite demo_runtime (init_session :: (unit, nat) session)
      [Message wire_start42, Message wire_hello, Message wire_world, Message wire_done,
       FetchReturns 42 (Inr 7)] =
     \<lparr>es_closed = True, taskId = Some 42, settled = True, completion = Resolved 7,
      fetches = []\<rparr> \<and>
   page_run demo_runtime (\<lambda>text. int (length text)) init_page
      [HandleRewrite ''hello world'' (Some 1), SourceMessage 0 wire_start42,
       SourceMessage 0 wire_hello, SourceMessage 0 wire_world, SourceMessage 0 wire_done] =
     \<lparr>sources = [True], eventSourceRef = Some 0, isLoading = False,
      rewrittenContent = ''Hello, World!'', resultWordCount = 2\<rparr> \<and>
   fetches (run StartCover demo_runtime (init_session :: (unit, nat) session)
      [Message wire_hello, Message wire_error, Message wire_mystery]) = [] \<and>
   \<not> es_closed (run StartCover demo_runtime (init_session :: (unit, nat) session)
      [Message wire_hello]) \<and>
   fetches (run StartCover demo_runtime
      (step StartCover demo_runtime
        (run StartCover demo_runtime (init_session :: (unit, nat) session) [Message wire_hello])
        CloseCall)
      [Message wire_done]) = []"
proof -
  have n: "\<forall>raw. Message raw \<in> set [Message wire_hello, Message wire_error, Message wire_mystery] \<longrightarrow>
      property (parseSseJson demo_runtime raw) ''type'' \<noteq> Some (JStr ''done'')"
    by (auto simp: demo_frames)
  have o: "\<not> es_closed (run StartCover demo_runtime (init_session :: (unit, nat) session)
      [Message wire_hello])"
    by (simp add: run_def step_Message onmessage_of_simps coverWithStream_onmessage_def
        demo_frames init_session_def Let_def)
  note t = rewrite_end_to_end[OF demo_frames(1-4), where ?'e = unit and ?'r = nat
      and st = StartCover and evs = "[Message wire_hello, Message wire_error, Message wire_mystery]"
      and fetched = "7 :: nat" and cw = "\<lambda>text. int (length text)"]
  note u = rewrite_end_to_end[OF demo_frames(1-4), where ?'e = unit and ?'r = nat
      and st = StartCover and evs = "[Message wire_hello]" and ev = CloseCall and later = "[Message wire_done]"]
  have a: "run StartRewrite demo_runtime (init_session :: (unit, nat) session)
      [Message wire_start42, Message wire_hello, Message wire_world, Message wire_done,
       FetchReturns 42 (Inr 7)] =
     \<lparr>es_closed = True, taskId = Some 42, settled = True, completion = Resolved 7,
      fetches = []\<rparr>"
    using t by blast
  have b: "page_run demo_runtime (\<lambda>text. int (length text)) init_page
      [HandleRewrite ''hello world'' (Some 1), SourceMessage 0 wire_start42,
       SourceMessage 0 wire_hello, SourceMessage 0 wire_world, SourceMessage 0 wire_done] =
     \<lparr>sources = [True], eventSourceRef = Some 0, isLoading = False,
      rewrittenContent = ''Hello, World!'', resultWordCount = 2\<rparr>"
    using t by blast
  have c: "fetches (run StartCover demo_runtime (init_session :: (unit, nat) session)
      [Message wire_hello, Message wire_error, Message wire_mystery]) = []"
    using t n by blast
  have d: "fetches (run StartCover demo_runtime
      (step StartCover demo_runtime
        (run StartCover demo_runtime (init_session :: (unit, nat) session) [Message wire_hello])
        CloseCall)
      [Message wire_done]) = []"
    using u o by blast
  from a b c o d show ?thesis by blast
qed

text \<open>
  C4 as stated fails: the session of \<^verbatim>\<open>startRewrite\<close>, the one that captures the id and
  resolves with the fetched record, accumulates no content. After the two content frames
  it is in the state it was in before them, and when \<^verbatim>\<open>done\<close> has been handled it holds
  the id and the pending fetch and nothing of the text.
\<close>

theorem startRewrite_keeps_no_content_counterexample:
  "run StartRewrite demo_runtime (init_session :: (unit, unit) session)
      [Message wire_start42, Message wire_hello, Message wire_world] =
     run StartRewrite demo_runtime init_session [Message wire_start42] \<and>
   run StartRewrite demo_runtime (init_session :: (unit, unit) session)
      [Message wire_start42, Message wire_hello, Message wire_world, Message wire_done] =
     \<lparr>es_closed = True, taskId = Some 42, settled = False, completion = Pending,
      fetches = [42]\<rparr>"
  by (simp add: run_def step_Message onmessage_of_simps demo_rewrite_actions init_session_def
      text_onDone_def)

end
